theory Spec2Isabelle
  imports Main "HOL-Library.Word" "HOL-Library.Signed_Division" "HOL-Library.Sublist"
begin

section \<open>Machine sizes\<close>

text \<open>
  The sources target 64-bit Linux (liburing): \<open>size_t\<close> and pointers are 64 bits wide,
  \<open>int\<close> is 32 bits wide. Sizes, counts and offsets are natural numbers; where the
  source converts a possibly negative quantity to \<open>size_t\<close> the wrap-around modulo
  \<open>2 ^ 64\<close> is written out. A pointer into a buffer is its offset from the start of that
  buffer, so \<open>storage.get()\<close> is offset \<open>0\<close>.
\<close>

definition to_size_t :: "int \<Rightarrow> nat" where
  "to_size_t i = nat (i mod 2 ^ 64)"

definition ptr_diff :: "nat \<Rightarrow> nat \<Rightarrow> nat" where
  \<comment> \<open>\<open>p - q\<close> on two pointers, stored into a \<open>size_t\<close>\<close>
  "ptr_diff p q = to_size_t (int p - int q)"

datatype 'a outcome = Returns 'a | Assertion_failed | Still_spinning

section \<open>Logger: severity threshold and output file (logger.cc)\<close>

text \<open>
  \<open>enum class LogLevel : uint8_t\<close>: a value of the enumeration is any byte; the
  enumerators are the bytes 0 to 5.
\<close>

type_synonym LogLevel = "8 word"

abbreviation (input) LogLevel_NONE :: LogLevel where "LogLevel_NONE \<equiv> 0"
abbreviation (input) LogLevel_ERROR :: LogLevel where "LogLevel_ERROR \<equiv> 1"
abbreviation (input) LogLevel_WARNING :: LogLevel where "LogLevel_WARNING \<equiv> 2"
abbreviation (input) LogLevel_INFO :: LogLevel where "LogLevel_INFO \<equiv> 3"
abbreviation (input) LogLevel_DEBUG :: LogLevel where "LogLevel_DEBUG \<equiv> 4"
abbreviation (input) NUMBER_OF_LOG_LEVELS :: LogLevel where "NUMBER_OF_LOG_LEVELS \<equiv> 5"

text \<open>The two members of \<open>Logger\<close> that the setters touch.\<close>

record Logger =
  current_log_level :: LogLevel
  output_fd :: int

definition STDOUT_FILENO :: int where
  "STDOUT_FILENO = 1"

definition Logger_init :: Logger where
  "Logger_init = \<lparr>current_log_level = LogLevel_INFO, output_fd = STDOUT_FILENO\<rparr>"

definition setLogLevelInternal :: "LogLevel \<Rightarrow> Logger \<Rightarrow> Logger" where
  "setLogLevelInternal level lg =
     (let level' = (if level \<ge> NUMBER_OF_LOG_LEVELS
                    then word_of_int (uint NUMBER_OF_LOG_LEVELS - 1) else level)
      in lg\<lparr>current_log_level := level'\<rparr>)"

definition getLogLevelInternal :: "Logger \<Rightarrow> LogLevel" where
  "getLogLevelInternal lg = current_log_level lg"

text \<open>
  \<open>setLogFileInternal\<close> talks to the operating system through \<open>access\<close>,
  \<open>open\<close>, \<open>strerror\<close> and \<open>close\<close>. What the system answers is an input
  of the model; the descriptors handed to \<open>close\<close> are an output, in call order.
  A thrown \<open>std::ios_base::failure\<close> is the left injection, carrying its message; the
  logger is returned in both cases, as the object lives on after the throw.
\<close>

record os_reply =
  access_F_OK :: int
  access_R_OK_W_OK :: int
  open_result :: int
  strerror_text :: string

datatype io_failure = Ios_base_failure string

definition setLogFileInternal ::
  "os_reply \<Rightarrow> string \<Rightarrow> Logger \<Rightarrow> (io_failure + unit) \<times> Logger \<times> int list" where
  "setLogFileInternal os filename lg =
     (if access_F_OK os = 0 \<and> access_R_OK_W_OK os \<noteq> 0
      then (Inl (Ios_base_failure (''Unable to read/write file: '' @ filename)), lg, [])
      else let new_fd = open_result os in
        if new_fd < 0
        then (Inl (Ios_base_failure
                (''Can't open file: '' @ filename @ '': '' @ strerror_text os)), lg, [])
        else (Inr (), lg\<lparr>output_fd := new_fd\<rparr>,
              (if output_fd lg > 0 then [output_fd lg] else [])))"

section \<open>StagingBuffer (buffers.h, buffers.cc)\<close>

record StagingBuffer =
  producer_pos :: nat
  end_of_data :: nat
  consumer_pos :: nat
  buffer_id :: nat
  should_be_destructed :: bool
  capacity :: nat
  available_bytes :: nat

definition StagingBuffer_new :: "nat \<Rightarrow> nat \<Rightarrow> StagingBuffer" where
  "StagingBuffer_new bid cap =
     \<lparr>producer_pos = 0, end_of_data = 0 + cap, consumer_pos = 0, buffer_id = bid,
      should_be_destructed = False, capacity = cap, available_bytes = cap\<rparr>"


text \<open>
  One pass through the body of the \<open>while\<close> loop of
  \<open>reserveProducerSpaceInternal\<close>. \<open>Some r\<close> is a \<open>return r\<close> from inside the
  loop (\<open>r = None\<close> is \<open>nullptr\<close>); \<open>None\<close> means the loop condition is tested again.
\<close>

definition reserve_tail :: "nat \<Rightarrow> bool \<Rightarrow> StagingBuffer \<Rightarrow> nat option option \<times> StagingBuffer" where
  "reserve_tail num_bytes blocking s =
     (if \<not> blocking \<and> available_bytes s \<le> num_bytes then (Some None, s) else (None, s))"

definition reserve_iteration :: "nat \<Rightarrow> bool \<Rightarrow> StagingBuffer \<Rightarrow> nat option option \<times> StagingBuffer" where
  "reserve_iteration num_bytes blocking s =
     (let end_of_storage = 0 + capacity s;
          cached_consumer_pos = consumer_pos s
      in if cached_consumer_pos \<le> producer_pos s
         then let s1 = s\<lparr>available_bytes := ptr_diff end_of_storage (producer_pos s)\<rparr>
              in if available_bytes s1 > num_bytes then (Some (Some (producer_pos s1)), s1)
                 else let s2 = s1\<lparr>end_of_data := producer_pos s1\<rparr>;
                          s3 = (if cached_consumer_pos \<noteq> 0
                                then s2\<lparr>producer_pos := 0,
                                        available_bytes := ptr_diff cached_consumer_pos 0\<rparr>
                                else s2)
                      in reserve_tail num_bytes blocking s3
         else reserve_tail num_bytes blocking
                (s\<lparr>available_bytes := ptr_diff cached_consumer_pos (consumer_pos s)\<rparr>))"

text \<open>
  The loop itself. It can spin for ever, so it runs on fuel: one unit per pass through the
  body. \<open>Still_spinning\<close> is the loop caught in the act when the fuel is spent, with the
  state it has reached.
\<close>

fun reserveProducerSpaceInternal ::
  "nat \<Rightarrow> nat \<Rightarrow> bool \<Rightarrow> StagingBuffer \<Rightarrow> nat option outcome \<times> StagingBuffer" where
  "reserveProducerSpaceInternal fuel num_bytes blocking s =
     (if available_bytes s \<le> num_bytes
      then (case fuel of
              0 \<Rightarrow> (Still_spinning, s)
            | Suc fuel' \<Rightarrow>
                (case reserve_iteration num_bytes blocking s of
                   (Some r, s') \<Rightarrow> (Returns r, s')
                 | (None, s') \<Rightarrow> reserveProducerSpaceInternal fuel' num_bytes blocking s'))
      else (Returns (Some (producer_pos s)), s))"

definition reserveProducerSpace ::
  "nat \<Rightarrow> nat \<Rightarrow> bool \<Rightarrow> StagingBuffer \<Rightarrow> nat option outcome \<times> StagingBuffer" where
  "reserveProducerSpace fuel num_bytes blocking s =
     (if \<not> (num_bytes < capacity s \<or> \<not> blocking) then (Assertion_failed, s)
      else if num_bytes < available_bytes s then (Returns (Some (producer_pos s)), s)
      else reserveProducerSpaceInternal fuel num_bytes blocking s)"

definition finishReservation :: "nat \<Rightarrow> StagingBuffer \<Rightarrow> unit outcome \<times> StagingBuffer" where
  "finishReservation num_bytes s =
     (if \<not> num_bytes < available_bytes s then (Assertion_failed, s)
      else if \<not> producer_pos s + num_bytes < 0 + capacity s then (Assertion_failed, s)
      else (Returns (),
            s\<lparr>available_bytes := available_bytes s - num_bytes,
              producer_pos := producer_pos s + num_bytes\<rparr>))"

text \<open>\<open>peek\<close> returns the read pointer and the number of readable bytes.\<close>

definition peek :: "StagingBuffer \<Rightarrow> (nat \<times> nat) \<times> StagingBuffer" where
  "peek s =
     (let cached_producer_pos = producer_pos s
      in if cached_producer_pos < consumer_pos s
         then let avail = ptr_diff (end_of_data s) (consumer_pos s)
              in if avail > 0 then ((consumer_pos s, avail), s)
                 else let s' = s\<lparr>consumer_pos := 0\<rparr>
                      in ((consumer_pos s', ptr_diff cached_producer_pos (consumer_pos s')), s')
         else ((consumer_pos s, ptr_diff cached_producer_pos (consumer_pos s)), s))"

definition consume :: "nat \<Rightarrow> StagingBuffer \<Rightarrow> unit outcome \<times> StagingBuffer" where
  "consume num_bytes s =
     (if \<not> consumer_pos s + num_bytes < 0 + capacity s then (Assertion_failed, s)
      else (Returns (), s\<lparr>consumer_pos := consumer_pos s + num_bytes\<rparr>))"


text \<open>
  The reservation scenario of the specification: a buffer of capacity 16, the producer
  reserves and commits 10 bytes, the consumer peeks and consumes them.
  \<open>c1_wrapped a\<close> is the buffer after the producer has published the wrap-around,
  with \<open>a\<close> in \<open>available_bytes\<close>.
\<close>

definition c1_initial :: StagingBuffer where
  "c1_initial = StagingBuffer_new 0 16"

definition c1_committed :: StagingBuffer where
  "c1_committed = snd (finishReservation 10 (snd (reserveProducerSpace 0 10 True c1_initial)))"

definition c1_consumed :: StagingBuffer where
  "c1_consumed = snd (consume 10 (snd (peek c1_committed)))"

definition c1_wrapped :: "nat \<Rightarrow> StagingBuffer" where
  "c1_wrapped a = \<lparr>producer_pos = 0, end_of_data = 10, consumer_pos = 10, buffer_id = 0,
      should_be_destructed = False, capacity = 16, available_bytes = a\<rparr>"

section \<open>Runs of the staging buffer\<close>




text \<open>
  What the pointers say about the bytes not yet consumed, and what the producer's
  \<open>available_bytes\<close> may be at most: the invariant of a run.
\<close>

definition consistent :: "StagingBuffer \<Rightarrow> nat \<Rightarrow> bool" where
  "consistent s unread =
     (capacity s < 2 ^ 64 \<and> producer_pos s \<le> capacity s \<and> end_of_data s \<le> capacity s \<and>
      (if consumer_pos s \<le> producer_pos s
       then unread = producer_pos s - consumer_pos s \<and>
            available_bytes s \<le> capacity s - producer_pos s
       else consumer_pos s \<le> end_of_data s \<and>
            unread = end_of_data s - consumer_pos s + producer_pos s \<and>
            available_bytes s \<le> consumer_pos s - producer_pos s))"

section \<open>Descriptors and records (log_info.h)\<close>

text \<open>
  \<open>enum class ParamType : int32_t\<close>: the named values are negative, and a value
  \<open>n \<ge> 0\<close> is a string with the static precision \<open>n\<close>.
\<close>

type_synonym ParamType = int

abbreviation (input) INVALID :: ParamType where "INVALID \<equiv> - 6"
abbreviation (input) DYNAMIC_WIDTH :: ParamType where "DYNAMIC_WIDTH \<equiv> - 5"
abbreviation (input) DYNAMIC_PRECISION :: ParamType where "DYNAMIC_PRECISION \<equiv> - 4"
abbreviation (input) NON_STRING :: ParamType where "NON_STRING \<equiv> - 3"
abbreviation (input) STRING_WITH_DYNAMIC_PRECISION :: ParamType where "STRING_WITH_DYNAMIC_PRECISION \<equiv> - 2"
abbreviation (input) STRING_WITH_NO_PRECISION :: ParamType where "STRING_WITH_NO_PRECISION \<equiv> - 1"
abbreviation (input) STRING :: ParamType where "STRING \<equiv> 0"

datatype ConversionType =
    NONE
  | unsigned_char_t | unsigned_short_int_t | unsigned_int_t | unsigned_long_int_t
  | unsigned_long_long_int_t | uintmax_t_t | size_t_t | wint_t_t
  | signed_char_t | short_int_t | int_t | long_int_t | long_long_int_t | intmax_t_t
  | ptrdiff_t_t
  | double_t | long_double_t
  | const_void_ptr_t | const_char_ptr_t | const_wchar_t_ptr_t
  | MAX_CONVERSION_TYPE

record FormatFragment =
  conversion_type :: ConversionType
  specifier_length :: nat
  format_pos :: nat
  storage_pos :: nat

text \<open>
  The pointer members of \<open>StaticLogInfo\<close> are the arrays they point to. \<open>filename\<close>
  is the characters before the terminating NUL.
\<close>

record StaticLogInfo =
  filename :: string
  line_number :: nat
  log_level :: LogLevel
  format_len :: nat
  num_conversions :: nat
  num_parameters :: nat
  format_str :: string
  conversion_storage :: string
  format_fragments :: "FormatFragment list"
  param_types :: "ParamType list"
  param_sizes :: "nat list"

record DynamicLogInfo =
  log_id :: nat
  info_size :: nat
  ms_timestamp :: int
  arg_data :: string

abbreviation NUL :: char where "NUL \<equiv> CHR 0x00"

section \<open>Bytes in memory\<close>

text \<open>
  Integers lie in memory least significant byte first (x86-64, AArch64). An array read
  or a \<open>memcpy\<close> source outside its array is undefined behaviour in the source and
  \<open>None\<close> here.
\<close>

definition nth_checked :: "'a list \<Rightarrow> nat \<Rightarrow> 'a option" where
  "nth_checked xs i = (if i < length xs then Some (xs ! i) else None)"

definition read_bytes :: "string \<Rightarrow> nat \<Rightarrow> nat \<Rightarrow> string option" where
  "read_bytes mem pos n = (if pos + n \<le> length mem then Some (take n (drop pos mem)) else None)"

definition le_decode :: "string \<Rightarrow> nat" where
  "le_decode bs = foldr (\<lambda>c n. of_char c + 256 * n) bs 0"

text \<open>
  The \<open>n\<close> bytes of an integer object with value \<open>v\<close> (two's complement for a
  negative one).
\<close>

fun le_encode :: "nat \<Rightarrow> int \<Rightarrow> string" where
  "le_encode 0 v = []"
| "le_encode (Suc n) v = char_of (v mod 256) # le_encode n (v div 256)"

definition as_unsigned :: "nat \<Rightarrow> int \<Rightarrow> int" where
  "as_unsigned bits v = v mod 2 ^ bits"

definition as_signed :: "nat \<Rightarrow> int \<Rightarrow> int" where
  "as_signed bits v = (v + 2 ^ (bits - 1)) mod 2 ^ bits - 2 ^ (bits - 1)"

text \<open>
  A write of \<open>bytes\<close> at offset \<open>pos\<close> of a memory region. A write that does not lie
  inside the region is undefined behaviour in the source; the model leaves the region as
  it is (the checks of the assembler keep every write inside).
\<close>

definition mem_write :: "string \<Rightarrow> nat \<Rightarrow> string \<Rightarrow> string" where
  "mem_write mem pos bytes =
     (if pos + length bytes \<le> length mem
      then take pos mem @ bytes @ drop (pos + length bytes) mem else mem)"

text \<open>The C string that starts at offset \<open>pos\<close>.\<close>

definition c_str :: "string \<Rightarrow> nat \<Rightarrow> string" where
  "c_str mem pos = takeWhile (\<lambda>c. c \<noteq> NUL) (drop pos mem)"

section \<open>The C library\<close>

text \<open>
  \<open>std::to_string\<close> on an unsigned number: its decimal digits.
\<close>

fun to_string :: "nat \<Rightarrow> string" where
  "to_string n =
     (if n < 10 then [''0123456789'' ! n]
      else to_string (n div 10) @ [''0123456789'' ! (n mod 10)])"

text \<open>
  What \<open>snprintf\<close> receives after the format: the variadic arguments. An integer is
  passed by value, a floating-point number as the bytes the record holds (its value is
  not interpreted here), a pointer as the offset it points to in the record's argument
  bytes, a string as the bytes from the pointer onwards, up to the end of the record.
\<close>

datatype printf_arg =
    Int_arg int
  | Float_arg string
  | Pointer_arg nat
  | String_arg string
  | Wide_string_arg string

text \<open>
  The rendering \<open>snprintf\<close> produces for a format and its arguments is a parameter of
  the model: \<open>None\<close> is an output error (a negative return value), \<open>Some out\<close> the
  complete text. \<open>c_snprintf\<close> is the contract of \<open>snprintf(buf + pos, n, ...)\<close>:
  it stores at most \<open>n - 1\<close> characters of the text and a NUL, and returns the length
  of the complete text.
\<close>

type_synonym formatter = "string \<Rightarrow> printf_arg list \<Rightarrow> string option"

definition c_snprintf ::
  "formatter \<Rightarrow> string \<Rightarrow> nat \<Rightarrow> nat \<Rightarrow> string \<Rightarrow> printf_arg list \<Rightarrow> int \<times> string" where
  "c_snprintf pf buf pos n fmt args =
     (case pf fmt args of
        None \<Rightarrow> (- 1, buf)
      | Some out \<Rightarrow>
          (int (length out),
           if n = 0 then buf else mem_write buf pos (take (n - 1) out @ [NUL])))"

section \<open>Format analysis (log_info.h)\<close>

definition IsConversionSpecifier :: "char \<Rightarrow> bool" where
  "IsConversionSpecifier c =
     (c = CHR ''d'' \<or> c = CHR ''i'' \<or> c = CHR ''u'' \<or> c = CHR ''o'' \<or> c = CHR ''x'' \<or>
      c = CHR ''X'' \<or> c = CHR ''f'' \<or> c = CHR ''F'' \<or> c = CHR ''e'' \<or> c = CHR ''E'' \<or>
      c = CHR ''g'' \<or> c = CHR ''G'' \<or> c = CHR ''a'' \<or> c = CHR ''A'' \<or> c = CHR ''c'' \<or>
      c = CHR ''p'' \<or> c = CHR ''%'' \<or> c = CHR ''s'' \<or> c = CHR ''n'')"

definition IsFlag :: "char \<Rightarrow> bool" where
  "IsFlag c = (c = CHR ''-'' \<or> c = CHR ''+'' \<or> c = CHR '' '' \<or> c = CHR ''#'' \<or> c = CHR ''0'')"

definition IsLength :: "char \<Rightarrow> bool" where
  "IsLength c =
     (c = CHR ''h'' \<or> c = CHR ''l'' \<or> c = CHR ''j'' \<or> c = CHR ''z'' \<or> c = CHR ''t'' \<or>
      c = CHR ''L'')"

definition IsDigit :: "char \<Rightarrow> bool" where
  "IsDigit c = (of_char c \<ge> (48 :: nat) \<and> of_char c \<le> (57 :: nat))"

text \<open>
  The analysis functions walk the array \<open>fmt\<close> of \<open>_FormatLength\<close> characters (the
  terminating NUL of a string literal is one of them) with an index. In the model the
  index is the part of the array that is still ahead: \<open>fmt[index]\<close> is its head, and
  \<open>++index\<close> drops it. When nothing is ahead, \<open>index < _FormatLength\<close> is false, and a read
  of \<open>fmt[index]\<close> is outside the array: undefined behaviour, and no constant expression.
  \<open>throw std::invalid_argument\<close> and such reads are the errors.
\<close>

datatype parse_error =
    Unrecognized_conversion_specifier
  | Conversion_specifier_n_not_supported
  | Read_outside_format
  | Integer_overflow

text \<open>The loops that only move the index: flags, width, precision, length.\<close>

definition skip_flags :: "string \<Rightarrow> string" where
  "skip_flags xs = dropWhile IsFlag xs"

definition skip_width :: "string \<Rightarrow> string" where
  "skip_width xs =
     (case xs of
        [] \<Rightarrow> []
      | c # cs \<Rightarrow> if c = CHR ''*'' then cs else dropWhile IsDigit xs)"

definition skip_precision :: "string \<Rightarrow> string" where
  "skip_precision xs =
     (case xs of
        [] \<Rightarrow> []
      | c # cs \<Rightarrow>
          if c = CHR ''.'' then
            (case cs of
               [] \<Rightarrow> []
             | d # ds \<Rightarrow> if d = CHR ''*'' then ds else dropWhile IsDigit cs)
          else xs)"

definition skip_length :: "string \<Rightarrow> string" where
  "skip_length xs = dropWhile IsLength xs"

text \<open>
  The two checks on the conversion specifier, and \<open>++index\<close> past it: the result is the
  specifier and what lies ahead of it.
\<close>

definition check_conversion :: "string \<Rightarrow> parse_error + char \<times> string" where
  "check_conversion xs =
     (case xs of
        [] \<Rightarrow> Inl Read_outside_format
      | c # cs \<Rightarrow>
          if \<not> IsConversionSpecifier c then Inl Unrecognized_conversion_specifier
          else if c = CHR ''n'' then Inl Conversion_specifier_n_not_supported
          else Inr (c, cs))"

lemma length_skip_flags: "length (skip_flags xs) \<le> length xs"
  by (simp add: skip_flags_def length_dropWhile_le)

lemma length_skip_width: "length (skip_width xs) \<le> length xs"
  by (auto simp: skip_width_def length_dropWhile_le le_SucI split: list.splits)

lemma length_skip_precision: "length (skip_precision xs) \<le> length xs"
  by (auto simp: skip_precision_def length_dropWhile_le le_SucI split: list.splits)

lemma length_skip_length: "length (skip_length xs) \<le> length xs"
  by (simp add: skip_length_def length_dropWhile_le)

lemma length_check_conversion:
  "check_conversion xs = Inr (c, rest) \<Longrightarrow> length rest < length xs"
  by (auto simp: check_conversion_def split: list.splits if_splits)

lemma length_skip_spec:
  "check_conversion (skip_length (skip_precision (skip_width (skip_flags xs)))) = Inr (c, rest)
   \<Longrightarrow> length rest < length xs"
  using length_check_conversion [of "skip_length (skip_precision (skip_width (skip_flags xs)))" c rest]
    length_skip_length [of "skip_precision (skip_width (skip_flags xs))"]
    length_skip_precision [of "skip_width (skip_flags xs)"]
    length_skip_width [of "skip_flags xs"] length_skip_flags [of xs]
  by linarith

subsection \<open>ConversionSpecifiersCount\<close>

function ConversionSpecifiersCount_from :: "string \<Rightarrow> nat \<Rightarrow> parse_error + nat" where
  "ConversionSpecifiersCount_from [] count = Inr count"
| "ConversionSpecifiersCount_from (c # cs) count =
     (if c \<noteq> CHR ''%'' then ConversionSpecifiersCount_from cs count
      else case cs of
        [] \<Rightarrow> Inl Read_outside_format
      | d # ds \<Rightarrow>
          if d = CHR ''%'' then ConversionSpecifiersCount_from ds count
          else
            (case check_conversion (skip_length (skip_precision (skip_width (skip_flags cs)))) of
               Inl e \<Rightarrow> Inl e
             | Inr (conv, rest) \<Rightarrow> ConversionSpecifiersCount_from rest (count + 1)))"
  by pat_completeness auto
termination
  by (relation "measure (\<lambda>(xs, count). length xs)") (auto dest: length_skip_spec)

definition ConversionSpecifiersCount :: "string \<Rightarrow> parse_error + nat" where
  "ConversionSpecifiersCount fmt = ConversionSpecifiersCount_from fmt 0"

subsection \<open>GetParamInfo, FormatParametersCount, AnalyzeFormatParameters\<close>

text \<open>
  A step of \<open>GetParamInfo\<close> either returns a parameter type or goes on with what lies
  ahead and the remaining \<open>param_num\<close>.
\<close>

datatype 'a param_step = Param_is ParamType | Param_error parse_error | Param_next 'a

definition param_width :: "string \<Rightarrow> nat \<Rightarrow> (string \<times> nat) param_step" where
  "param_width xs param_num =
     (case xs of
        [] \<Rightarrow> Param_next ([], param_num)
      | c # cs \<Rightarrow>
          if c = CHR ''*'' then
            (if param_num = 0 then Param_is DYNAMIC_WIDTH else Param_next (cs, param_num - 1))
          else Param_next (dropWhile IsDigit xs, param_num))"

text \<open>
  The precision given in digits is accumulated in an \<open>int\<close>; beyond \<open>2 ^ 31 - 1\<close>
  the addition overflows.
\<close>

fun precision_digits :: "string \<Rightarrow> int \<Rightarrow> parse_error + string \<times> int" where
  "precision_digits [] precision = Inr ([], precision)"
| "precision_digits (c # cs) precision =
     (if IsDigit c then
        (let precision' = precision * 10 + (of_char c - 48)
         in if precision' > 2147483647 then Inl Integer_overflow
            else precision_digits cs precision')
      else Inr (c # cs, precision))"

text \<open>
  The result of the precision step: what lies ahead, \<open>param_num\<close>,
  \<open>has_dynamic_precision\<close> and \<open>precision\<close>.
\<close>

definition param_precision ::
  "string \<Rightarrow> nat \<Rightarrow> (string \<times> nat \<times> bool \<times> int) param_step" where
  "param_precision xs param_num =
     (case xs of
        [] \<Rightarrow> Param_next ([], param_num, False, - 1)
      | c # cs \<Rightarrow>
          if c = CHR ''.'' then
            (case cs of
               [] \<Rightarrow> Param_next ([], param_num, False, 0)
             | d # ds \<Rightarrow>
                 if d = CHR ''*'' then
                   (if param_num = 0 then Param_is DYNAMIC_PRECISION
                    else Param_next (ds, param_num - 1, True, - 1))
                 else
                   (case precision_digits cs 0 of
                      Inl e \<Rightarrow> Param_error e
                    | Inr (rest, precision) \<Rightarrow> Param_next (rest, param_num, False, precision)))
          else Param_next (xs, param_num, False, - 1))"

lemma length_precision_digits:
  "precision_digits xs p = Inr (rest, q) \<Longrightarrow> length rest \<le> length xs"
  by (induction xs p rule: precision_digits.induct) (auto simp: Let_def split: if_splits)

lemma length_param_width:
  "param_width xs n = Param_next (rest, m) \<Longrightarrow> length rest \<le> length xs"
  by (auto simp: param_width_def length_dropWhile_le le_SucI split: list.splits if_splits)

lemma length_param_precision:
  "param_precision xs n = Param_next (rest, m, b, p) \<Longrightarrow> length rest \<le> length xs"
  by (auto simp: param_precision_def le_SucI split: list.splits if_splits sum.splits
      dest!: length_precision_digits)

lemma length_param_spec:
  assumes "param_width (skip_flags xs) n = Param_next (r1, n1)"
    and "param_precision r1 n1 = Param_next (r2, n2, b, p)"
    and "check_conversion (skip_length r2) = Inr (c, rest)"
  shows "length rest < length xs"
  using length_param_width [OF assms(1)] length_param_precision [OF assms(2)]
    length_check_conversion [OF assms(3)] length_skip_length [of r2] length_skip_flags [of xs]
  by linarith

function GetParamInfo_from :: "string \<Rightarrow> nat \<Rightarrow> parse_error + ParamType" where
  "GetParamInfo_from [] param_num = Inr INVALID"
| "GetParamInfo_from (c # cs) param_num =
     (if c \<noteq> CHR ''%'' then GetParamInfo_from cs param_num
      else case cs of
        [] \<Rightarrow> Inl Read_outside_format
      | d # ds \<Rightarrow>
          if d = CHR ''%'' then GetParamInfo_from ds param_num
          else
            (case param_width (skip_flags cs) param_num of
               Param_is t \<Rightarrow> Inr t
             | Param_error e \<Rightarrow> Inl e
             | Param_next (r1, n1) \<Rightarrow>
            (case param_precision r1 n1 of
               Param_is t \<Rightarrow> Inr t
             | Param_error e \<Rightarrow> Inl e
             | Param_next (r2, n2, has_dynamic_precision, precision) \<Rightarrow>
            (case check_conversion (skip_length r2) of
               Inl e \<Rightarrow> Inl e
             | Inr (conv, rest) \<Rightarrow>
                 if n2 > 0 then GetParamInfo_from rest (n2 - 1)
                 else if conv \<noteq> CHR ''s'' then Inr NON_STRING
                 else if has_dynamic_precision then Inr STRING_WITH_DYNAMIC_PRECISION
                 else if precision = - 1 then Inr STRING_WITH_NO_PRECISION
                 else Inr precision))))"
  by pat_completeness auto
termination
  by (relation "measure (\<lambda>(xs, n). length xs)") (auto dest: length_param_spec)

definition GetParamInfo :: "string \<Rightarrow> nat \<Rightarrow> parse_error + ParamType" where
  "GetParamInfo fmt param_num = GetParamInfo_from fmt param_num"

text \<open>
  \<open>FormatParametersCount\<close>: \<open>while (GetParamInfo(fmt, n) != INVALID) n++\<close>. The loop
  is over the function \<open>\<lambda>n. GetParamInfo fmt n\<close>; not returning is \<open>None\<close>.
\<close>

partial_function (option) count_parameters ::
  "(nat \<Rightarrow> parse_error + ParamType) \<Rightarrow> nat \<Rightarrow> (parse_error + nat) option" where
  "count_parameters g n =
     (case g n of
        Inl e \<Rightarrow> Some (Inl e)
      | Inr t \<Rightarrow>
          if t \<noteq> INVALID then count_parameters g (n + 1)
          else Some (Inr n))"

definition FormatParametersCount :: "string \<Rightarrow> (parse_error + nat) option" where
  "FormatParametersCount fmt = count_parameters (GetParamInfo fmt) 0"

text \<open>An array built element by element from calls that may throw.\<close>

fun collect :: "('e + 'a) list \<Rightarrow> 'e + 'a list" where
  "collect [] = Inr []"
| "collect (Inl e # rs) = Inl e"
| "collect (Inr x # rs) = (case collect rs of Inl e \<Rightarrow> Inl e | Inr xs \<Rightarrow> Inr (x # xs))"

definition AnalyzeFormatParameters :: "nat \<Rightarrow> string \<Rightarrow> parse_error + ParamType list" where
  "AnalyzeFormatParameters num_param fmt = collect (map (GetParamInfo fmt) [0..<num_param])"

subsection \<open>GetConversionType\<close>

record length_counts =
  h_cnt :: nat
  l_cnt :: nat
  L_flag :: bool
  j_flag :: bool
  z_flag :: bool
  t_flag :: bool

definition no_length :: length_counts where
  "no_length = \<lparr>h_cnt = 0, l_cnt = 0, L_flag = False, j_flag = False, z_flag = False,
                 t_flag = False\<rparr>"

fun scan_length :: "string \<Rightarrow> length_counts \<Rightarrow> string \<times> length_counts" where
  "scan_length [] f = ([], f)"
| "scan_length (c # cs) f =
     (if IsLength c then
        scan_length cs
          (if c = CHR ''L'' then f\<lparr>L_flag := True\<rparr>
           else if c = CHR ''h'' then f\<lparr>h_cnt := h_cnt f + 1\<rparr>
           else if c = CHR ''j'' then f\<lparr>j_flag := True\<rparr>
           else if c = CHR ''l'' then f\<lparr>l_cnt := l_cnt f + 1\<rparr>
           else if c = CHR ''t'' then f\<lparr>t_flag := True\<rparr>
           else if c = CHR ''z'' then f\<lparr>z_flag := True\<rparr>
           else f)
      else (c # cs, f))"

lemma length_scan_length: "scan_length xs f = (rest, g) \<Longrightarrow> length rest \<le> length xs"
  by (induction xs f rule: scan_length.induct) (auto split: if_splits)

lemma length_type_spec:
  assumes "scan_length (skip_precision (skip_width (skip_flags xs))) f = (r, g)"
    and "check_conversion r = Inr (c, rest)"
  shows "length rest < length xs"
  using length_scan_length [OF assms(1)] length_check_conversion [OF assms(2)]
    length_skip_precision [of "skip_width (skip_flags xs)"]
    length_skip_width [of "skip_flags xs"] length_skip_flags [of xs]
  by linarith

text \<open>
  The loop of \<open>GetConversionType\<close>: the result is \<open>specifier\<close> (the character 0 when the
  loop ends without a \<open>break\<close>) and the length counters.
\<close>

function GetConversionType_scan ::
  "string \<Rightarrow> nat \<Rightarrow> length_counts \<Rightarrow> parse_error + char \<times> length_counts" where
  "GetConversionType_scan [] conversion_num f = Inr (NUL, f)"
| "GetConversionType_scan (c # cs) conversion_num f =
     (if c \<noteq> CHR ''%'' then GetConversionType_scan cs conversion_num f
      else case cs of
        [] \<Rightarrow> Inl Read_outside_format
      | d # ds \<Rightarrow>
          if d = CHR ''%'' then GetConversionType_scan ds conversion_num f
          else
            (case scan_length (skip_precision (skip_width (skip_flags cs))) f of (r, f') \<Rightarrow>
            (case check_conversion r of
               Inl e \<Rightarrow> Inl e
             | Inr (conv, rest) \<Rightarrow>
                 if conversion_num > 0
                 then GetConversionType_scan rest (conversion_num - 1) no_length
                 else Inr (conv, f'))))"
  by pat_completeness auto
termination
  by (relation "measure (\<lambda>(xs, n, f). length xs)")
     (auto simp del: scan_length.simps dest: length_type_spec [OF sym])

definition classify_conversion :: "char \<Rightarrow> length_counts \<Rightarrow> ConversionType" where
  "classify_conversion specifier f =
     (if specifier = CHR ''d'' \<or> specifier = CHR ''i'' then
        (if h_cnt f \<ge> 2 then signed_char_t
         else if l_cnt f \<ge> 2 then long_long_int_t
         else if h_cnt f \<ge> 1 then short_int_t
         else if l_cnt f \<ge> 1 then long_int_t
         else if j_flag f then intmax_t_t
         else if z_flag f then size_t_t
         else if t_flag f then ptrdiff_t_t
         else int_t)
      else if specifier = CHR ''u'' \<or> specifier = CHR ''o'' \<or> specifier = CHR ''x'' \<or>
              specifier = CHR ''X'' then
        (if h_cnt f \<ge> 2 then unsigned_char_t
         else if l_cnt f \<ge> 2 then unsigned_long_long_int_t
         else if h_cnt f \<ge> 1 then unsigned_short_int_t
         else if l_cnt f \<ge> 1 then unsigned_long_int_t
         else if j_flag f then uintmax_t_t
         else if z_flag f then size_t_t
         else if t_flag f then ptrdiff_t_t
         else unsigned_int_t)
      else if specifier = CHR ''s'' then
        (if l_cnt f \<ge> 1 then const_wchar_t_ptr_t else const_char_ptr_t)
      else if specifier = CHR ''p'' then const_void_ptr_t
      else if specifier = CHR ''f'' \<or> specifier = CHR ''F'' \<or> specifier = CHR ''e'' \<or>
              specifier = CHR ''E'' \<or> specifier = CHR ''g'' \<or> specifier = CHR ''G'' \<or>
              specifier = CHR ''a'' \<or> specifier = CHR ''A'' then
        (if L_flag f then long_double_t else double_t)
      else if specifier = CHR ''c'' then
        (if l_cnt f \<ge> 1 then wint_t_t else int_t)
      else NONE)"

definition GetConversionType :: "string \<Rightarrow> nat \<Rightarrow> parse_error + ConversionType" where
  "GetConversionType fmt conversion_num =
     (case GetConversionType_scan fmt conversion_num no_length of
        Inl e \<Rightarrow> Inl e
      | Inr (specifier, f) \<Rightarrow> Inr (classify_conversion specifier f))"

subsection \<open>SizeConversionStorageNeeds\<close>

text \<open>A loop that counts the characters it passes into \<open>need_size\<close>.\<close>

fun count_run :: "(char \<Rightarrow> bool) \<Rightarrow> string \<Rightarrow> nat \<Rightarrow> string \<times> nat" where
  "count_run P [] need_size = ([], need_size)"
| "count_run P (c # cs) need_size =
     (if P c then count_run P cs (need_size + 1) else (c # cs, need_size))"

definition size_width :: "string \<Rightarrow> nat \<Rightarrow> string \<times> nat" where
  "size_width xs need_size =
     (case xs of
        [] \<Rightarrow> ([], need_size)
      | c # cs \<Rightarrow>
          if c = CHR ''*'' then (cs, need_size + 1) else count_run IsDigit xs need_size)"

definition size_precision :: "string \<Rightarrow> nat \<Rightarrow> string \<times> nat" where
  "size_precision xs need_size =
     (case xs of
        [] \<Rightarrow> ([], need_size)
      | c # cs \<Rightarrow>
          if c = CHR ''.'' then
            (case cs of
               [] \<Rightarrow> ([], need_size + 1)
             | d # ds \<Rightarrow>
                 if d = CHR ''*'' then (ds, need_size + 1 + 1)
                 else count_run IsDigit cs (need_size + 1))
          else (xs, need_size))"

lemma count_run_eq:
  "count_run P xs n = (dropWhile P xs, n + length (takeWhile P xs))"
  by (induction xs arbitrary: n) auto

lemma size_width_rest: "fst (size_width xs n) = skip_width xs"
  by (auto simp: size_width_def skip_width_def count_run_eq split: list.splits)

lemma size_precision_rest: "fst (size_precision xs n) = skip_precision xs"
  by (auto simp: size_precision_def skip_precision_def count_run_eq split: list.splits)

lemma length_size_spec:
  assumes "count_run IsFlag xs n = (r1, n1)" and "size_width r1 n1 = (r2, n2)"
    and "size_precision r2 n2 = (r3, n3)" and "count_run IsLength r3 n3 = (r4, n4)"
    and "check_conversion r4 = Inr (c, rest)"
  shows "length rest < length xs"
proof -
  have "r4 = skip_length (skip_precision (skip_width (skip_flags xs)))"
    using assms(1-4) size_width_rest [of r1 n1] size_precision_rest [of r2 n2]
    by (simp add: count_run_eq skip_flags_def skip_length_def)
  with assms(5) show ?thesis by (simp add: length_skip_spec)
qed

function SizeConversionStorageNeeds_from :: "string \<Rightarrow> nat \<Rightarrow> nat \<Rightarrow> parse_error + nat" where
  "SizeConversionStorageNeeds_from [] need_size count = Inr (need_size + count)"
| "SizeConversionStorageNeeds_from (c # cs) need_size count =
     (if c \<noteq> CHR ''%'' then SizeConversionStorageNeeds_from cs need_size count
      else case cs of
        [] \<Rightarrow> Inl Read_outside_format
      | d # ds \<Rightarrow>
          if d = CHR ''%'' then SizeConversionStorageNeeds_from ds need_size count
          else
            (case count_run IsFlag cs (need_size + 1) of (r1, n1) \<Rightarrow>
            (case size_width r1 n1 of (r2, n2) \<Rightarrow>
            (case size_precision r2 n2 of (r3, n3) \<Rightarrow>
            (case count_run IsLength r3 n3 of (r4, n4) \<Rightarrow>
            (case check_conversion r4 of
               Inl e \<Rightarrow> Inl e
             | Inr (conv, rest) \<Rightarrow>
                 SizeConversionStorageNeeds_from rest (n4 + 1) (count + 1)))))))"
  by pat_completeness auto
termination
  by (relation "measure (\<lambda>(xs, n, k). length xs)")
     (auto simp del: count_run.simps dest: length_size_spec [OF sym sym sym sym])

definition SizeConversionStorageNeeds :: "string \<Rightarrow> parse_error + nat" where
  "SizeConversionStorageNeeds fmt = SizeConversionStorageNeeds_from fmt 0 0"

subsection \<open>GetConversionSpecifierChar, MakeConversionStorage\<close>

text \<open>
  \<open>GetConversionSpecifierChar\<close> counts \<open>num\<close> down over the characters of the
  specifiers. A step either returns the character it has counted down to, or goes on.
\<close>

datatype 'a char_step = Char_is char | Char_next 'a

fun char_run :: "(char \<Rightarrow> bool) \<Rightarrow> string \<Rightarrow> nat \<Rightarrow> (string \<times> nat) char_step" where
  "char_run P [] num = Char_next ([], num)"
| "char_run P (c # cs) num =
     (if P c then (if num = 0 then Char_is c else char_run P cs (num - 1))
      else Char_next (c # cs, num))"

definition char_width :: "string \<Rightarrow> nat \<Rightarrow> (string \<times> nat) char_step" where
  "char_width xs num =
     (case xs of
        [] \<Rightarrow> Char_next ([], num)
      | c # cs \<Rightarrow>
          if c = CHR ''*'' then (if num = 0 then Char_is CHR ''*'' else Char_next (cs, num - 1))
          else char_run IsDigit xs num)"

definition char_precision :: "string \<Rightarrow> nat \<Rightarrow> (string \<times> nat) char_step" where
  "char_precision xs num =
     (case xs of
        [] \<Rightarrow> Char_next ([], num)
      | c # cs \<Rightarrow>
          if c = CHR ''.'' then
            (if num = 0 then Char_is c
             else case cs of
               [] \<Rightarrow> Char_next ([], num - 1)
             | d # ds \<Rightarrow>
                 if d = CHR ''*''
                 then (if num - 1 = 0 then Char_is CHR ''*'' else Char_next (ds, num - 1 - 1))
                 else char_run IsDigit cs (num - 1))
          else Char_next (xs, num))"

lemma length_char_run: "char_run P xs n = Char_next (rest, m) \<Longrightarrow> length rest \<le> length xs"
  by (induction P xs n rule: char_run.induct) (auto simp: le_SucI split: if_splits)

lemma length_char_width: "char_width xs n = Char_next (rest, m) \<Longrightarrow> length rest \<le> length xs"
  by (auto simp: char_width_def le_SucI split: list.splits if_splits dest!: length_char_run)

lemma length_char_precision:
  "char_precision xs n = Char_next (rest, m) \<Longrightarrow> length rest \<le> length xs"
  by (auto simp: char_precision_def le_SucI split: list.splits if_splits dest!: length_char_run)

lemma length_char_spec:
  assumes "char_run IsFlag xs n = Char_next (r1, n1)" and "char_width r1 n1 = Char_next (r2, n2)"
    and "char_precision r2 n2 = Char_next (r3, n3)" and "char_run IsLength r3 n3 = Char_next (r4, n4)"
    and "check_conversion r4 = Inr (c, rest)"
  shows "length rest < length xs"
  using length_char_run [OF assms(1)] length_char_width [OF assms(2)]
    length_char_precision [OF assms(3)] length_char_run [OF assms(4)]
    length_check_conversion [OF assms(5)]
  by linarith

function GetConversionSpecifierChar_from :: "string \<Rightarrow> nat \<Rightarrow> parse_error + char" where
  "GetConversionSpecifierChar_from [] num = Inr NUL"
| "GetConversionSpecifierChar_from (c # cs) num =
     (if c \<noteq> CHR ''%'' then GetConversionSpecifierChar_from cs num
      else case cs of
        [] \<Rightarrow> Inl Read_outside_format
      | d # ds \<Rightarrow>
          if d = CHR ''%'' then GetConversionSpecifierChar_from ds num
          else if num = 0 then Inr CHR ''%''
          else
            (case char_run IsFlag cs (num - 1) of
               Char_is ch \<Rightarrow> Inr ch
             | Char_next (r1, n1) \<Rightarrow>
            (case char_width r1 n1 of
               Char_is ch \<Rightarrow> Inr ch
             | Char_next (r2, n2) \<Rightarrow>
            (case char_precision r2 n2 of
               Char_is ch \<Rightarrow> Inr ch
             | Char_next (r3, n3) \<Rightarrow>
            (case char_run IsLength r3 n3 of
               Char_is ch \<Rightarrow> Inr ch
             | Char_next (r4, n4) \<Rightarrow>
            (case check_conversion r4 of
               Inl e \<Rightarrow> Inl e
             | Inr (conv, rest) \<Rightarrow>
                 if n4 = 0 then Inr conv
                 else if n4 - 1 = 0 then Inr NUL
                 else GetConversionSpecifierChar_from rest (n4 - 1 - 1)))))))"
  by pat_completeness auto
termination
  by (relation "measure (\<lambda>(xs, n). length xs)")
     (auto simp del: char_run.simps dest: length_char_spec)

definition GetConversionSpecifierChar :: "string \<Rightarrow> nat \<Rightarrow> parse_error + char" where
  "GetConversionSpecifierChar fmt num = GetConversionSpecifierChar_from fmt num"

definition MakeConversionStorage :: "nat \<Rightarrow> string \<Rightarrow> parse_error + string" where
  "MakeConversionStorage storage_size fmt =
     collect (map (GetConversionSpecifierChar fmt) [0..<storage_size])"

subsection \<open>Fragments\<close>

text \<open>Here the index itself is returned, so it is carried along.\<close>

function GetConversionSpecifierPosition_from :: "string \<Rightarrow> nat \<Rightarrow> nat \<Rightarrow> parse_error + nat" where
  "GetConversionSpecifierPosition_from [] index num = Inr index"
| "GetConversionSpecifierPosition_from (c # cs) index num =
     (if c \<noteq> CHR ''%'' then GetConversionSpecifierPosition_from cs (index + 1) num
      else case cs of
        [] \<Rightarrow> Inl Read_outside_format
      | d # ds \<Rightarrow>
          if d = CHR ''%'' then GetConversionSpecifierPosition_from ds (index + 1 + 1) num
          else if num = 0 then Inr (index + 1 - 1)
          else
            (case check_conversion (skip_length (skip_precision (skip_width (skip_flags cs)))) of
               Inl e \<Rightarrow> Inl e
             | Inr (conv, rest) \<Rightarrow>
                 GetConversionSpecifierPosition_from rest
                   (index + (length (c # cs) - length rest)) (num - 1)))"
  by pat_completeness auto
termination
  by (relation "measure (\<lambda>(xs, i, n). length xs)") (auto dest: length_skip_spec)

definition GetConversionSpecifierPosition :: "string \<Rightarrow> nat \<Rightarrow> parse_error + nat" where
  "GetConversionSpecifierPosition fmt num = GetConversionSpecifierPosition_from fmt 0 num"

fun GetConversionSpecifierLength_from :: "string \<Rightarrow> nat \<Rightarrow> nat \<Rightarrow> nat" where
  "GetConversionSpecifierLength_from [] num len = len"
| "GetConversionSpecifierLength_from (c # cs) num len =
     (if c = NUL then (if num = 0 then len else GetConversionSpecifierLength_from cs (num - 1) 0)
      else GetConversionSpecifierLength_from cs num (len + 1))"

definition GetConversionSpecifierLength :: "string \<Rightarrow> nat \<Rightarrow> nat" where
  "GetConversionSpecifierLength storage num = GetConversionSpecifierLength_from storage num 0"

fun GetConversionSpecifierPositionInStorage_from :: "string \<Rightarrow> nat \<Rightarrow> nat \<Rightarrow> nat" where
  "GetConversionSpecifierPositionInStorage_from [] index num = index"
| "GetConversionSpecifierPositionInStorage_from (c # cs) index num =
     (if c \<noteq> CHR ''%'' then GetConversionSpecifierPositionInStorage_from cs (index + 1) num
      else if num = 0 then index
      else GetConversionSpecifierPositionInStorage_from cs (index + 1) (num - 1))"

definition GetConversionSpecifierPositionInStorage :: "string \<Rightarrow> nat \<Rightarrow> nat" where
  "GetConversionSpecifierPositionInStorage storage num =
     GetConversionSpecifierPositionInStorage_from storage 0 num"

definition GetFormatFragment :: "string \<Rightarrow> string \<Rightarrow> nat \<Rightarrow> parse_error + FormatFragment" where
  "GetFormatFragment fmt storage i =
     (case GetConversionType fmt i of
        Inl e \<Rightarrow> Inl e
      | Inr ct \<Rightarrow>
          (case GetConversionSpecifierPosition fmt i of
             Inl e \<Rightarrow> Inl e
           | Inr pos \<Rightarrow>
               Inr \<lparr>conversion_type = ct,
                    specifier_length = GetConversionSpecifierLength storage i,
                    format_pos = pos,
                    storage_pos = GetConversionSpecifierPositionInStorage storage i\<rparr>))"

definition GetFormatFragments :: "nat \<Rightarrow> string \<Rightarrow> string \<Rightarrow> parse_error + FormatFragment list" where
  "GetFormatFragments num_format_fragments fmt storage =
     collect (map (GetFormatFragment fmt storage) [0..<num_format_fragments])"

section \<open>The conversion specifiers of a format string\<close>

text \<open>
  The specification speaks of the conversion specifiers that occur in a format string and
  of the NUL-separated tokens of the conversion storage. These definitions follow its
  words, not the code: a conversion specifier is a \<open>%\<close> that is not part of the escape
  \<open>%%\<close>, followed by flags, a width (\<open>*\<close> or digits), a precision (a \<open>.\<close> and \<open>*\<close> or
  digits), length modifiers and the conversion character. They are compared with
  \<open>MakeConversionStorage\<close> below.
\<close>

definition flags_text :: "string \<Rightarrow> string" where
  "flags_text xs = takeWhile IsFlag xs"

definition width_text :: "string \<Rightarrow> string" where
  "width_text xs =
     (case xs of [] \<Rightarrow> [] | c # cs \<Rightarrow> if c = CHR ''*'' then [c] else takeWhile IsDigit xs)"

definition precision_text :: "string \<Rightarrow> string" where
  "precision_text xs =
     (case xs of
        [] \<Rightarrow> []
      | c # cs \<Rightarrow>
          if c = CHR ''.'' then
            c # (case cs of [] \<Rightarrow> [] | d # ds \<Rightarrow> if d = CHR ''*'' then [d] else takeWhile IsDigit cs)
          else [])"

definition length_text :: "string \<Rightarrow> string" where
  "length_text xs = takeWhile IsLength xs"

text \<open>What stands between the \<open>%\<close> and the conversion character, at the head of \<open>xs\<close>.\<close>

definition specifier_prefix :: "string \<Rightarrow> string" where
  "specifier_prefix xs =
     (let f = flags_text xs;
          w = width_text (drop (length f) xs);
          p = precision_text (drop (length (f @ w)) xs);
          l = length_text (drop (length (f @ w @ p)) xs)
      in f @ w @ p @ l)"

lemma length_drop_Cons: "drop k xs = y # ys \<Longrightarrow> length ys < length xs"
proof -
  assume "drop k xs = y # ys"
  then have "length (drop k xs) = Suc (length ys)" by simp
  then show ?thesis by simp
qed

text \<open>The conversion specifiers of a format string, in the order in which they occur.\<close>

function specifiers :: "string \<Rightarrow> string list" where
  "specifiers [] = []"
| "specifiers (c # cs) =
     (if c \<noteq> CHR ''%'' then specifiers cs
      else case cs of
        [] \<Rightarrow> []
      | d # ds \<Rightarrow>
          if d = CHR ''%'' then specifiers ds
          else
            (case drop (length (specifier_prefix cs)) cs of
               [] \<Rightarrow> []
             | conv # rest \<Rightarrow> (CHR ''%'' # specifier_prefix cs @ [conv]) # specifiers rest))"
  by pat_completeness auto
termination
  by (relation "measure length") (auto dest: length_drop_Cons)

text \<open>The tokens of a storage array: the texts in front of its NULs.\<close>

function tokens :: "string \<Rightarrow> string list" where
  "tokens xs =
     (if NUL \<notin> set xs then []
      else takeWhile (\<lambda>c. c \<noteq> NUL) xs # tokens (drop 1 (dropWhile (\<lambda>c. c \<noteq> NUL) xs)))"
  by pat_completeness auto
termination
proof (relation "measure length")
  fix xs :: string
  assume "\<not> NUL \<notin> set xs"
  then have "dropWhile (\<lambda>c. c \<noteq> NUL) xs \<noteq> []"
    by (simp add: dropWhile_eq_Nil_conv)
  moreover have "length (dropWhile (\<lambda>c. c \<noteq> NUL) xs) \<le> length xs"
    by (rule length_dropWhile_le)
  ultimately show "(drop 1 (dropWhile (\<lambda>c. c \<noteq> NUL) xs), xs) \<in> measure length"
    by (cases "dropWhile (\<lambda>c. c \<noteq> NUL) xs") auto
qed simp

declare tokens.simps [simp del]

definition storage_text :: "string \<Rightarrow> string" where
  "storage_text fmt = concat (map (\<lambda>s. s @ [NUL]) (specifiers fmt))"

section \<open>Record codec (log_info.h) and Log (olog.h)\<close>

text \<open>
  An argument of a log call, by its C++ type: an integer type other than a pointer (its
  \<open>sizeof\<close> and value), a floating-point type (its \<open>sizeof\<close> and the bytes of the
  object), a pointer to \<open>char\<close> or to \<open>wchar_t\<close> (the address, and the characters
  before the terminating zero), or a pointer to \<open>void\<close>. \<open>sizeof(void*)\<close>,
  \<open>sizeof(size_t)\<close> are 8, \<open>sizeof(wchar_t)\<close> is 4.
\<close>

datatype log_arg =
    Integral nat int
  | Floating nat string
  | Char_ptr nat string
  | Wchar_ptr nat "nat list"
  | Void_ptr nat

definition GetParamSize :: "ParamType \<Rightarrow> log_arg \<Rightarrow> nat" where
  "GetParamSize param_type arg =
     (case arg of
        Integral sz v \<Rightarrow> sz
      | Floating sz bs \<Rightarrow> sz
      | Void_ptr a \<Rightarrow> 8
      | Char_ptr a str \<Rightarrow> if param_type \<le> NON_STRING then 8 else 0
      | Wchar_ptr a ws \<Rightarrow> if param_type \<le> NON_STRING then 8 else 0)"

text \<open>
  \<open>GetParamSizes\<close> fills \<open>param_sizes[i]\<close> for each argument; \<open>Log\<close> asserts
  statically that there are as many arguments as parameter types.
\<close>

definition GetParamSizes :: "ParamType list \<Rightarrow> log_arg list \<Rightarrow> nat list" where
  "GetParamSizes pts args = map (\<lambda>(t, a). GetParamSize t a) (zip pts args)"

definition AsSizet :: "log_arg \<Rightarrow> nat" where
  "AsSizet arg = (case arg of Integral sz v \<Rightarrow> to_size_t v | _ \<Rightarrow> 0)"

text \<open>
  \<open>GetArgSize(param_type, string_size, pre_precision, val)\<close>: the result is the size,
  and \<open>string_size\<close> and \<open>pre_precision\<close> after the call.
\<close>

definition GetArgSize :: "ParamType \<Rightarrow> nat \<Rightarrow> nat \<Rightarrow> log_arg \<Rightarrow> nat \<times> nat \<times> nat" where
  "GetArgSize param_type string_size pre_precision arg =
     (case arg of
        Integral sz v \<Rightarrow>
          (sz, string_size,
           if param_type = DYNAMIC_PRECISION then AsSizet arg else pre_precision)
      | Floating sz bs \<Rightarrow>
          (sz, string_size,
           if param_type = DYNAMIC_PRECISION then AsSizet arg else pre_precision)
      | Void_ptr a \<Rightarrow> (8, string_size, pre_precision)
      | Char_ptr a str \<Rightarrow>
          if param_type \<le> NON_STRING then (8, string_size, pre_precision)
          else
            let string_size1 = length str;
                format_len = to_size_t param_type;
                string_size2 =
                  (if param_type \<ge> STRING \<and> string_size1 > format_len then format_len
                   else if param_type = STRING_WITH_DYNAMIC_PRECISION \<and> string_size1 > pre_precision
                   then pre_precision
                   else string_size1)
            in (string_size2 + 8 + 1, string_size2, pre_precision)
      | Wchar_ptr a ws \<Rightarrow>
          if param_type \<le> NON_STRING then (8, string_size, pre_precision)
          else
            let string_size1 = length ws;
                format_len = to_size_t param_type;
                string_size2 =
                  (if param_type \<ge> STRING \<and> string_size1 > format_len then format_len
                   else if param_type = STRING_WITH_DYNAMIC_PRECISION \<and> string_size1 > pre_precision
                   then pre_precision
                   else string_size1);
                string_size3 = string_size2 * 4
            in (string_size3 + 8 + 1, string_size3, pre_precision))"

text \<open>
  \<open>GetArgSizes\<close> adds \<open>GetArgSize\<close> of the first argument to \<open>GetArgSizes\<close> of the
  rest. C++ leaves the order of the two operands of \<open>+\<close> open; the model evaluates the
  left one first, which is the order in which \<open>pre_precision\<close> reaches the string that
  follows it. The result is the sum, and the array \<open>string_sizes\<close> after the calls.
\<close>

fun GetArgSizes ::
  "ParamType list \<Rightarrow> nat list \<Rightarrow> nat \<Rightarrow> log_arg list \<Rightarrow> nat \<times> nat list" where
  "GetArgSizes (t # ts) (ss # sss) pre_precision (a # as) =
     (case GetArgSize t ss pre_precision a of (sz, ss', pre_precision') \<Rightarrow>
        (case GetArgSizes ts sss pre_precision' as of (rest_size, sss') \<Rightarrow>
           (sz + rest_size, ss' # sss')))"
| "GetArgSizes ts sss pre_precision as = (0, sss)"

text \<open>\<open>StoreArgument\<close>: the bytes it stores at \<open>dst\<close>.\<close>

definition StoreArgument :: "ParamType \<Rightarrow> nat \<Rightarrow> log_arg \<Rightarrow> string" where
  "StoreArgument param_type string_size arg =
     (case arg of
        Integral sz v \<Rightarrow> le_encode sz v
      | Floating sz bs \<Rightarrow> take sz bs
      | Void_ptr a \<Rightarrow> le_encode 8 (int a)
      | Char_ptr a str \<Rightarrow>
          if param_type \<le> NON_STRING then le_encode 8 (int a)
          else le_encode 8 (int string_size) @ take string_size (str @ [NUL]) @ [NUL]
      | Wchar_ptr a ws \<Rightarrow>
          if param_type \<le> NON_STRING then le_encode 8 (int a)
          else le_encode 8 (int string_size) @
               take string_size (concat (map (\<lambda>w. le_encode 4 (int w)) (ws @ [0]))) @ [NUL])"

fun StoreArguments :: "ParamType list \<Rightarrow> nat list \<Rightarrow> log_arg list \<Rightarrow> string" where
  "StoreArguments (t # ts) (ss # sss) (a # as) = StoreArgument t ss a @ StoreArguments ts sss as"
| "StoreArguments ts sss as = []"

text \<open>
  What the \<open>OLOG\<close> macro computes from the format array at compile time: the
  conversion storage, the fragments and the parameter types. \<open>None\<close> is a
  \<open>FormatParametersCount\<close> that does not return.
\<close>

definition OLOG_analysis ::
  "string \<Rightarrow> (parse_error + string \<times> FormatFragment list \<times> ParamType list) option" where
  "OLOG_analysis format_array =
     (case FormatParametersCount format_array of
        None \<Rightarrow> None
      | Some (Inl e) \<Rightarrow> Some (Inl e)
      | Some (Inr num_params) \<Rightarrow> Some
         (case ConversionSpecifiersCount format_array of
            Inl e \<Rightarrow> Inl e
          | Inr num_conv \<Rightarrow>
         (case SizeConversionStorageNeeds format_array of
            Inl e \<Rightarrow> Inl e
          | Inr conversion_storage_size \<Rightarrow>
         (case AnalyzeFormatParameters num_params format_array of
            Inl e \<Rightarrow> Inl e
          | Inr pts \<Rightarrow>
         (case MakeConversionStorage conversion_storage_size format_array of
            Inl e \<Rightarrow> Inl e
          | Inr storage \<Rightarrow>
         (case GetFormatFragments num_conv format_array storage of
            Inl e \<Rightarrow> Inl e
          | Inr fragments \<Rightarrow> Inr (storage, fragments, pts)))))))"

text \<open>
  \<open>Log\<close>: the descriptor it registers and the record it writes into the staging buffer,
  for a call that is not filtered out by the threshold \<open>current\<close>. The number of
  arguments is the number of parameter types (a static assertion). The entries of
  \<open>string_sizes\<close> start out uninitialised; those that are read are written first.
  \<open>sizeof(DynamicLogInfo)\<close> is 24.
\<close>

definition Log ::
  "LogLevel \<Rightarrow> nat \<Rightarrow> string \<Rightarrow> nat \<Rightarrow> LogLevel \<Rightarrow> string \<Rightarrow> string \<Rightarrow>
   FormatFragment list \<Rightarrow> ParamType list \<Rightarrow> log_arg list \<Rightarrow> int \<Rightarrow>
   (StaticLogInfo \<times> DynamicLogInfo) option" where
  "Log current lid file line severity fmt storage fragments pts args timestamp =
     (if length pts \<noteq> length args then None
      else if severity > current then None
      else
        let sizes = GetParamSizes pts args;
            info = \<lparr>filename = file, line_number = line, log_level = severity,
                    format_len = length fmt, num_conversions = length fragments,
                    num_parameters = length pts, format_str = fmt,
                    conversion_storage = storage, format_fragments = fragments,
                    param_types = pts, param_sizes = sizes\<rparr>;
            (args_size, string_sizes) = GetArgSizes pts (replicate (length pts + 1) 0) 0 args;
            alloc_size = args_size + 24
        in Some (info,
                 \<lparr>log_id = lid, info_size = alloc_size, ms_timestamp = timestamp,
                  arg_data = StoreArguments pts string_sizes args\<rparr>))"

text \<open>The macro and the call together, for a format array that passes the analysis.\<close>

definition OLOG ::
  "LogLevel \<Rightarrow> nat \<Rightarrow> string \<Rightarrow> nat \<Rightarrow> LogLevel \<Rightarrow> string \<Rightarrow> log_arg list \<Rightarrow> int \<Rightarrow>
   (StaticLogInfo \<times> DynamicLogInfo) option" where
  "OLOG current lid file line severity format_array args timestamp =
     (case OLOG_analysis format_array of
        Some (Inr (storage, fragments, pts)) \<Rightarrow>
          Log current lid file line severity format_array storage fragments pts args timestamp
      | _ \<Rightarrow> None)"

text \<open>
  A rendering to run the examples with. It follows the C standard on the conversions the
  examples use, \<open>%d\<close> and \<open>%i\<close> with an optional width, and \<open>%s\<close> with an optional
  width and precision (each a number or \<open>*\<close>, padding with spaces on the left), and is
  an output error on every other format.
\<close>

definition render_decimal :: "int \<Rightarrow> string" where
  "render_decimal v = (if v < 0 then CHR ''-'' # to_string (nat (- v)) else to_string (nat v))"

definition digits_value :: "string \<Rightarrow> nat" where
  "digits_value ds = foldl (\<lambda>n c. 10 * n + (of_char c - 48)) 0 ds"

definition pad_left :: "nat option \<Rightarrow> string \<Rightarrow> string" where
  "pad_left width str =
     (case width of None \<Rightarrow> str | Some w \<Rightarrow> replicate (w - length str) CHR '' '' @ str)"

definition printf_width ::
  "string \<Rightarrow> printf_arg list \<Rightarrow> nat option \<times> string \<times> printf_arg list" where
  "printf_width r args =
     (case r of
        [] \<Rightarrow> (None, r, args)
      | d # ds \<Rightarrow>
          if d = CHR ''*'' then
            (case args of Int_arg w # rest \<Rightarrow> (Some (nat w), ds, rest) | _ \<Rightarrow> (None, ds, args))
          else if IsDigit d then (Some (digits_value (takeWhile IsDigit r)), dropWhile IsDigit r, args)
          else (None, r, args))"

definition printf_precision ::
  "string \<Rightarrow> printf_arg list \<Rightarrow> nat option \<times> string \<times> printf_arg list" where
  "printf_precision r args =
     (case r of
        [] \<Rightarrow> (None, r, args)
      | d # ds \<Rightarrow>
          if d = CHR ''.'' then
            (case ds of
               [] \<Rightarrow> (Some 0, ds, args)
             | e # es \<Rightarrow>
                 if e = CHR ''*'' then
                   (case args of
                      Int_arg p # rest \<Rightarrow> ((if p < 0 then None else Some (nat p)), es, rest)
                    | _ \<Rightarrow> (None, es, args))
                 else (Some (digits_value (takeWhile IsDigit ds)), dropWhile IsDigit ds, args))
          else (None, r, args))"

definition printf_ref :: formatter where
  "printf_ref fmt args =
     (case fmt of
        [] \<Rightarrow> None
      | c # r \<Rightarrow>
          if c \<noteq> CHR ''%'' then None
          else
            (case printf_width r args of (width, r1, args1) \<Rightarrow>
            (case printf_precision r1 args1 of (precision, r2, args2) \<Rightarrow>
               (case (r2, args2) of
                  ([conv], [Int_arg v]) \<Rightarrow>
                    if (conv = CHR ''d'' \<or> conv = CHR ''i'') \<and> precision = None
                    then Some (pad_left width (render_decimal v)) else None
                | ([conv], [String_arg str]) \<Rightarrow>
                    if conv = CHR ''s''
                    then Some (pad_left width
                           (case precision of
                              None \<Rightarrow> takeWhile (\<lambda>c. c \<noteq> NUL) str
                            | Some p \<Rightarrow> take p (takeWhile (\<lambda>c. c \<noteq> NUL) str)))
                    else None
                | _ \<Rightarrow> None))))"

section \<open>LogAssembler (log_info.h, log_info.cc)\<close>

text \<open>
  \<open>write\<close> is \<open>noexcept\<close> and assumes that both infos are loaded. Reading through a
  null info, reading an array outside its bounds (undefined behaviour) and an
  \<open>std::invalid_argument\<close> thrown by \<open>LoadArgument\<close> (which ends the program inside a
  \<open>noexcept\<close> function) are the errors of the model.
\<close>

datatype assembler_error = Null_pointer | Out_of_bounds | Invalid_argument

text \<open>
  \<open>buffer\<close> is the memory region installed by \<open>setBuffer\<close>; \<open>write_pos\<close> is an
  offset into it. \<open>args_read_pos\<close> is an offset into \<open>arg_data\<close> of the loaded record.
\<close>

record LogAssembler =
  write_pos :: nat
  buffer :: string
  buffer_size :: nat
  writed_count :: nat
  bytes_last_writed :: nat
  conversion_index :: nat
  parameter_index :: nat
  format_index :: nat
  static_log_info :: "StaticLogInfo option"
  dynamic_log_info :: "DynamicLogInfo option"
  args_read_pos :: nat
  timestamp_str :: string
  filename_and_linenum :: string
  producer_id :: string
  end_of_log :: string
  is_full :: bool
  is_timestamp_writed :: bool
  is_filename_and_linenum_writed :: bool
  is_severity_writed :: bool
  is_producer_id_writed :: bool
  is_end_of_log_writed :: bool

text \<open>
  The constructor initialises some members only; the others keep whatever the memory
  held, here the members of \<open>junk\<close>.
\<close>

definition LogAssembler_new :: "LogAssembler \<Rightarrow> LogAssembler" where
  "LogAssembler_new junk =
     junk\<lparr>write_pos := 0, buffer := [], buffer_size := 0, writed_count := 0,
          conversion_index := 0, parameter_index := 0,
          static_log_info := None, dynamic_log_info := None,
          timestamp_str := replicate 25 NUL, filename_and_linenum := [],
          producer_id := ''[0]: '', end_of_log := [CHR 0x0D, CHR 0x0A], is_full := False\<rparr>"

definition setBuffer :: "string \<Rightarrow> nat \<Rightarrow> LogAssembler \<Rightarrow> LogAssembler" where
  "setBuffer region n s =
     s\<lparr>write_pos := 0, buffer := region, buffer_size := n, writed_count := 0\<rparr>"

definition resetIndices :: "LogAssembler \<Rightarrow> LogAssembler" where
  "resetIndices s = s\<lparr>conversion_index := 0, parameter_index := 0, format_index := 0\<rparr>"

definition resetFlags :: "LogAssembler \<Rightarrow> LogAssembler" where
  "resetFlags s =
     s\<lparr>is_timestamp_writed := False, is_filename_and_linenum_writed := False,
       is_severity_writed := False, is_producer_id_writed := False,
       is_end_of_log_writed := False\<rparr>"

definition loadStaticInfo :: "StaticLogInfo option \<Rightarrow> LogAssembler \<Rightarrow> LogAssembler" where
  "loadStaticInfo static_info s =
     (let s1 = s\<lparr>static_log_info := static_info\<rparr>;
          s2 = (case static_info of
                  None \<Rightarrow> s1
                | Some info \<Rightarrow>
                    s1\<lparr>filename_and_linenum :=
                         filename info @ '':'' @ to_string (line_number info) @ '' ''\<rparr>)
      in resetFlags (resetIndices s2))"

text \<open>
  \<open>strftime\<close> with \<open>localtime\<close> is the C library's and depends on the time zone of
  the process: the text it renders for a number of seconds, with the format
  \<open>%Y-%m-%d %H:%M:%S.\<close>, is the parameter \<open>render\<close>. \<open>c_strftime\<close> is its contract
  on an array: the text and a NUL are stored and the length of the text is returned when
  both fit; otherwise 0 is returned.
\<close>

definition c_strftime :: "(int \<Rightarrow> string) \<Rightarrow> string \<Rightarrow> int \<Rightarrow> nat \<times> string" where
  "c_strftime render arr seconds =
     (let r = render seconds
      in if length r + 1 \<le> length arr
         then (length r, r @ [NUL] @ drop (length r + 1) arr) else (0, arr))"

definition loadDynamicInfo ::
  "(int \<Rightarrow> string) \<Rightarrow> DynamicLogInfo option \<Rightarrow> LogAssembler \<Rightarrow> LogAssembler" where
  "loadDynamicInfo render dynamic_info s =
     (let s1 = s\<lparr>dynamic_log_info := dynamic_info\<rparr>;
          s2 = (case dynamic_info of
                  None \<Rightarrow> s1
                | Some d \<Rightarrow>
                    let timestamp_seconds = ms_timestamp d sdiv 1000;
                        timestamp_milisecond = ms_timestamp d smod 1000;
                        (index, arr) = c_strftime render (timestamp_str s1) timestamp_seconds;
                        arr1 = arr[index := char_of (48 + timestamp_milisecond sdiv 100)];
                        arr2 = arr1[index + 1 := char_of (48 + (timestamp_milisecond smod 100) sdiv 10)];
                        arr3 = arr2[index + 2 := char_of (48 + timestamp_milisecond smod 10)];
                        arr4 = arr3[index + 3 := CHR '' '']
                    in s1\<lparr>timestamp_str := arr4, args_read_pos := 0\<rparr>)
      in resetFlags (resetIndices s2))"

definition setProducerId :: "nat \<Rightarrow> LogAssembler \<Rightarrow> LogAssembler" where
  "setProducerId n s = s\<lparr>producer_id := ''['' @ to_string n @ '']: ''\<rparr>"

definition loadLogInfo ::
  "(int \<Rightarrow> string) \<Rightarrow> StaticLogInfo option \<Rightarrow> DynamicLogInfo option \<Rightarrow> nat \<Rightarrow>
   LogAssembler \<Rightarrow> LogAssembler" where
  "loadLogInfo render static_info dynamic_info pid s =
     resetFlags (resetIndices
       (setProducerId pid (loadDynamicInfo render dynamic_info (loadStaticInfo static_info s))))"

definition hasRemainingData :: "LogAssembler \<Rightarrow> bool" where
  "hasRemainingData s =
     (if static_log_info s = None \<or> dynamic_log_info s = None then False
      else \<not> is_end_of_log_writed s)"

definition getWritedBytes :: "LogAssembler \<Rightarrow> nat" where
  "getWritedBytes s = writed_count s"

definition getFreeBytes :: "LogAssembler \<Rightarrow> nat" where
  "getFreeBytes s = to_size_t (int (buffer_size s) - int (writed_count s))"

definition isBufferFull :: "LogAssembler \<Rightarrow> bool" where
  "isBufferFull s = is_full s"

definition finishWriting :: "nat \<Rightarrow> LogAssembler \<Rightarrow> LogAssembler" where
  "finishWriting bytes_writed s =
     s\<lparr>bytes_last_writed := (bytes_last_writed s + bytes_writed) mod 2 ^ 64,
       writed_count := (writed_count s + bytes_writed) mod 2 ^ 64,
       write_pos := write_pos s + bytes_writed\<rparr>"

text \<open>
  \<open>src\<close> is the memory from the source pointer to the end of its array: a \<open>memcpy\<close>
  of more than that reads outside the array.
\<close>

definition tryToWriteAStringToBuffer ::
  "string \<Rightarrow> nat \<Rightarrow> LogAssembler \<Rightarrow> assembler_error + nat \<times> LogAssembler" where
  "tryToWriteAStringToBuffer src len s =
     (if is_full s then Inr (0, s)
      else if len \<ge> getFreeBytes s then Inr (0, s\<lparr>is_full := True\<rparr>)
      else if length src < len then Inl Out_of_bounds
      else Inr (len, s\<lparr>buffer := mem_write (buffer s) (write_pos s) (take len src)\<rparr>))"

definition tryToWriteArgToBuffer ::
  "formatter \<Rightarrow> string \<Rightarrow> int \<Rightarrow> int \<Rightarrow> printf_arg \<Rightarrow> LogAssembler \<Rightarrow> nat \<times> LogAssembler" where
  "tryToWriteArgToBuffer pf fmt width precision arg s =
     (let args = (if width = - 1 \<and> precision = - 1 then [arg]
                  else if width \<noteq> - 1 \<and> precision = - 1 then [Int_arg width, arg]
                  else if width = - 1 \<and> precision \<noteq> - 1 then [Int_arg precision, arg]
                  else [Int_arg width, Int_arg precision, arg]);
          (ret, buf) = c_snprintf pf (buffer s) (write_pos s) (getFreeBytes s) fmt args;
          bytes_writed = to_size_t (0 + ret)
      in if bytes_writed \<ge> getFreeBytes s then (0, s\<lparr>buffer := buf, is_full := True\<rparr>)
         else (bytes_writed, s\<lparr>buffer := buf\<rparr>))"

text \<open>
  \<open>LoadArgument<_Tp>(read_pos, nbytes)\<close> for a signed and for an unsigned integer
  type \<open>_Tp\<close> of \<open>bits\<close> bits. The signed overload reads its 8-byte case through
  \<open>ino64_t\<close>, an unsigned type.
\<close>

definition LoadArgument_signed :: "nat \<Rightarrow> string \<Rightarrow> nat \<Rightarrow> nat \<Rightarrow> assembler_error + int" where
  "LoadArgument_signed bits mem read_pos nbytes =
     (if nbytes = 1 \<or> nbytes = 2 \<or> nbytes = 4 then
        (case read_bytes mem read_pos nbytes of
           None \<Rightarrow> Inl Out_of_bounds
         | Some bs \<Rightarrow> Inr (as_signed bits (as_signed (8 * nbytes) (int (le_decode bs)))))
      else if nbytes = 8 then
        (case read_bytes mem read_pos nbytes of
           None \<Rightarrow> Inl Out_of_bounds
         | Some bs \<Rightarrow> Inr (as_signed bits (int (le_decode bs))))
      else Inl Invalid_argument)"

definition LoadArgument_unsigned :: "nat \<Rightarrow> string \<Rightarrow> nat \<Rightarrow> nat \<Rightarrow> assembler_error + int" where
  "LoadArgument_unsigned bits mem read_pos nbytes =
     (if nbytes = 1 \<or> nbytes = 2 \<or> nbytes = 4 \<or> nbytes = 8 then
        (case read_bytes mem read_pos nbytes of
           None \<Rightarrow> Inl Out_of_bounds
         | Some bs \<Rightarrow> Inr (as_unsigned bits (int (le_decode bs))))
      else Inl Invalid_argument)"

text \<open>
  The floating-point overload: \<open>sizeof(float) = 4\<close>, \<open>sizeof(double) = 8\<close>,
  \<open>sizeof(long double) = 16\<close>. The bytes are handed on as they are.
\<close>

definition LoadArgument_floating :: "string \<Rightarrow> nat \<Rightarrow> nat \<Rightarrow> assembler_error + string" where
  "LoadArgument_floating mem read_pos nbytes =
     (if nbytes = 4 \<or> nbytes = 8 \<or> nbytes = 16 then
        (case read_bytes mem read_pos nbytes of
           None \<Rightarrow> Inl Out_of_bounds
         | Some bs \<Rightarrow> Inr bs)
      else Inl Invalid_argument)"

text \<open>
  The integer cases of the \<open>switch\<close> in \<open>write\<close> differ in the type \<open>_Tp\<close> of
  \<open>LoadArgument<_Tp>\<close> only: its signedness and width.
\<close>

fun integer_type :: "ConversionType \<Rightarrow> (bool \<times> nat) option" where
  "integer_type unsigned_char_t = Some (False, 8)"
| "integer_type unsigned_short_int_t = Some (False, 16)"
| "integer_type unsigned_int_t = Some (False, 32)"
| "integer_type unsigned_long_int_t = Some (False, 64)"
| "integer_type unsigned_long_long_int_t = Some (False, 64)"
| "integer_type uintmax_t_t = Some (False, 64)"
| "integer_type size_t_t = Some (False, 64)"
| "integer_type wint_t_t = Some (False, 32)"
| "integer_type signed_char_t = Some (True, 8)"
| "integer_type short_int_t = Some (True, 16)"
| "integer_type int_t = Some (True, 32)"
| "integer_type long_int_t = Some (True, 64)"
| "integer_type long_long_int_t = Some (True, 64)"
| "integer_type intmax_t_t = Some (True, 64)"
| "integer_type ptrdiff_t_t = Some (True, 64)"
| "integer_type _ = None"

text \<open>
  What one case of the \<open>switch\<close> loads before it calls \<open>tryToWriteArgToBuffer\<close>:
  the argument handed to \<open>snprintf\<close>, the value of \<open>arg_size\<close> after the case, and
  \<open>args_read_pos\<close> after the case. \<open>None\<close> is the \<open>default\<close> case, which writes
  nothing.
\<close>

definition load_conversion_arg ::
  "ConversionType \<Rightarrow> string \<Rightarrow> nat \<Rightarrow> nat \<Rightarrow>
   assembler_error + (printf_arg \<times> nat \<times> nat) option" where
  "load_conversion_arg ct mem read_pos arg_size =
     (case integer_type ct of
        Some (is_signed, bits) \<Rightarrow>
          (case (if is_signed then LoadArgument_signed bits mem read_pos arg_size
                 else LoadArgument_unsigned bits mem read_pos arg_size) of
             Inl e \<Rightarrow> Inl e
           | Inr v \<Rightarrow> Inr (Some (Int_arg v, arg_size, read_pos)))
      | None \<Rightarrow>
          if ct = double_t \<or> ct = long_double_t then
            (case LoadArgument_floating mem read_pos arg_size of
               Inl e \<Rightarrow> Inl e
             | Inr bs \<Rightarrow> Inr (Some (Float_arg bs, arg_size, read_pos)))
          else if ct = const_void_ptr_t then Inr (Some (Pointer_arg read_pos, arg_size, read_pos))
          else if ct = const_char_ptr_t \<or> ct = const_wchar_t_ptr_t then
            (case LoadArgument_unsigned 64 mem read_pos 8 of
               Inl e \<Rightarrow> Inl e
             | Inr v \<Rightarrow>
                 let arg_size' = nat v; read_pos' = read_pos + 8
                 in Inr (Some ((if ct = const_char_ptr_t then String_arg (drop read_pos' mem)
                                else Wide_string_arg (drop read_pos' mem)),
                               arg_size', read_pos' + arg_size' + 1)))
          else Inr None)"

datatype flow = Continue LogAssembler | Return LogAssembler | Fault assembler_error

definition then_do :: "flow \<Rightarrow> (LogAssembler \<Rightarrow> flow) \<Rightarrow> flow" where
  "then_do r f = (case r of Continue s \<Rightarrow> f s | Return s \<Rightarrow> Return s | Fault e \<Rightarrow> Fault e)"

text \<open>The five flagged phases of \<open>write\<close>.\<close>

definition write_timestamp :: "LogAssembler \<Rightarrow> flow" where
  "write_timestamp s =
     (if \<not> is_timestamp_writed s then
        (case tryToWriteAStringToBuffer (timestamp_str s) (length (timestamp_str s) - 1) s of
           Inl e \<Rightarrow> Fault e
         | Inr (tmp, s1) \<Rightarrow>
             if tmp = 0 then Return s1
             else Continue ((finishWriting tmp s1)\<lparr>is_timestamp_writed := True\<rparr>))
      else Continue s)"

definition write_filename_and_linenum :: "LogAssembler \<Rightarrow> flow" where
  "write_filename_and_linenum s =
     (if \<not> is_filename_and_linenum_writed s then
        (case tryToWriteAStringToBuffer (filename_and_linenum s) (length (filename_and_linenum s)) s of
           Inl e \<Rightarrow> Fault e
         | Inr (tmp, s1) \<Rightarrow>
             if tmp = 0 then Return s1
             else Continue ((finishWriting tmp s1)\<lparr>is_filename_and_linenum_writed := True\<rparr>))
      else Continue s)"

definition severity_str :: "string list" where
  "severity_str = [''[<none>]'', ''[ERROR]'', ''[WARNING]'', ''[INFO]'', ''[DEBUG]'']"

definition write_severity :: "StaticLogInfo \<Rightarrow> LogAssembler \<Rightarrow> flow" where
  "write_severity info s =
     (if \<not> is_severity_writed s then
        (case nth_checked severity_str (unat (log_level info)) of
           None \<Rightarrow> Fault Out_of_bounds
         | Some str \<Rightarrow>
             (case tryToWriteAStringToBuffer str (length str) s of
                Inl e \<Rightarrow> Fault e
              | Inr (tmp, s1) \<Rightarrow>
                  if tmp = 0 then Return s1
                  else Continue ((finishWriting tmp s1)\<lparr>is_severity_writed := True\<rparr>)))
      else Continue s)"

definition write_producer_id :: "LogAssembler \<Rightarrow> flow" where
  "write_producer_id s =
     (if \<not> is_producer_id_writed s then
        (case tryToWriteAStringToBuffer (producer_id s) (length (producer_id s)) s of
           Inl e \<Rightarrow> Fault e
         | Inr (tmp, s1) \<Rightarrow>
             if tmp = 0 then Return s1
             else Continue ((finishWriting tmp s1)\<lparr>is_producer_id_writed := True\<rparr>))
      else Continue s)"

definition write_end_of_log :: "LogAssembler \<Rightarrow> flow" where
  "write_end_of_log s =
     (if \<not> is_end_of_log_writed s then
        (case tryToWriteAStringToBuffer (end_of_log s) (length (end_of_log s)) s of
           Inl e \<Rightarrow> Fault e
         | Inr (tmp, s1) \<Rightarrow>
             if tmp = 0 then Return s1
             else Continue ((finishWriting tmp s1)\<lparr>is_end_of_log_writed := True\<rparr>))
      else Continue s)"

text \<open>The body of the \<open>while\<close> loop: a run of the format string copied as it is.\<close>

definition literal_run :: "StaticLogInfo \<Rightarrow> nat \<Rightarrow> LogAssembler \<Rightarrow> flow" where
  "literal_run info len s =
     (case tryToWriteAStringToBuffer (drop (format_index s) (format_str info)) len s of
        Inl e \<Rightarrow> Fault e
      | Inr (tmp, s1) \<Rightarrow>
          if tmp = 0 then Return s1
          else Continue ((finishWriting tmp s1)\<lparr>format_index := format_index s1 + tmp\<rparr>))"

text \<open>
  The dynamic width and the dynamic precision: \<open>kind\<close> is \<open>DYNAMIC_WIDTH\<close> or
  \<open>DYNAMIC_PRECISION\<close>. The result is the value (\<open>- 1\<close> when the parameter is not of
  that kind) and the assembler after the read.
\<close>

definition read_dynamic ::
  "ParamType \<Rightarrow> StaticLogInfo \<Rightarrow> string \<Rightarrow> LogAssembler \<Rightarrow> assembler_error + int \<times> LogAssembler" where
  "read_dynamic kind info mem s =
     (case nth_checked (param_types info) (parameter_index s) of
        None \<Rightarrow> Inl Out_of_bounds
      | Some t \<Rightarrow>
          if t = kind then
            (case nth_checked (param_sizes info) (parameter_index s) of
               None \<Rightarrow> Inl Out_of_bounds
             | Some sz \<Rightarrow>
                 (case LoadArgument_signed 32 mem (args_read_pos s) sz of
                    Inl e \<Rightarrow> Inl e
                  | Inr v \<Rightarrow>
                      Inr (v, s\<lparr>args_read_pos := args_read_pos s + sz,
                                parameter_index := parameter_index s + 1\<rparr>)))
          else Inr (- 1, s))"

text \<open>The \<open>switch\<close>: the result is \<open>tmp\<close>, \<open>arg_size\<close> and the assembler after it.\<close>

definition expand_specifier ::
  "formatter \<Rightarrow> StaticLogInfo \<Rightarrow> string \<Rightarrow> FormatFragment \<Rightarrow> int \<Rightarrow> int \<Rightarrow> LogAssembler \<Rightarrow>
   assembler_error + nat \<times> nat \<times> LogAssembler" where
  "expand_specifier pf info mem fragment width precision s =
     (let conversion_fmt = c_str (conversion_storage info) (storage_pos fragment)
      in case nth_checked (param_sizes info) (parameter_index s) of
           None \<Rightarrow> Inl Out_of_bounds
         | Some arg_size \<Rightarrow>
             (case load_conversion_arg (conversion_type fragment) mem (args_read_pos s) arg_size of
                Inl e \<Rightarrow> Inl e
              | Inr None \<Rightarrow> Inr (0, arg_size, s)
              | Inr (Some (arg, arg_size', read_pos')) \<Rightarrow>
                  let (tmp, s1) = tryToWriteArgToBuffer pf conversion_fmt width precision arg s
                  in Inr (tmp, arg_size', s1\<lparr>args_read_pos := read_pos'\<rparr>)))"

definition specifier_branch ::
  "formatter \<Rightarrow> StaticLogInfo \<Rightarrow> string \<Rightarrow> FormatFragment \<Rightarrow> LogAssembler \<Rightarrow> flow" where
  "specifier_branch pf info mem fragment s =
     (let original_conversion_index = conversion_index s;
          original_parameter_index = parameter_index s;
          original_read_pos = args_read_pos s
      in case read_dynamic DYNAMIC_WIDTH info mem s of
           Inl e \<Rightarrow> Fault e
         | Inr (width, s1) \<Rightarrow>
        (case read_dynamic DYNAMIC_PRECISION info mem s1 of
           Inl e \<Rightarrow> Fault e
         | Inr (precision, s2) \<Rightarrow>
        (case expand_specifier pf info mem fragment width precision s2 of
           Inl e \<Rightarrow> Fault e
         | Inr (tmp, arg_size, s3) \<Rightarrow>
             if tmp = 0 \<and> arg_size > 0
             then Return (s3\<lparr>conversion_index := original_conversion_index,
                             parameter_index := original_parameter_index,
                             args_read_pos := original_read_pos\<rparr>)
             else (case nth_checked (param_sizes info) (parameter_index s3) of
                     None \<Rightarrow> Fault Out_of_bounds
                   | Some sz \<Rightarrow>
                       Continue ((finishWriting tmp s3)
                         \<lparr>args_read_pos := args_read_pos s3 + sz,
                          conversion_index := conversion_index s3 + 1,
                          parameter_index := parameter_index s3 + 1,
                          format_index := format_index s3 + specifier_length fragment\<rparr>)))))"

definition body_iteration :: "formatter \<Rightarrow> StaticLogInfo \<Rightarrow> string \<Rightarrow> LogAssembler \<Rightarrow> flow" where
  "body_iteration pf info mem s =
     (if conversion_index s < num_conversions info then
        (case nth_checked (format_fragments info) (conversion_index s) of
           None \<Rightarrow> Fault Out_of_bounds
         | Some fragment \<Rightarrow>
             if format_index s < format_pos fragment
             then literal_run info (format_pos fragment - format_index s) s
             else specifier_branch pf info mem fragment s)
      else literal_run info (format_len info - format_index s) s)"

lemma tryToWriteAStringToBuffer_fields:
  assumes "tryToWriteAStringToBuffer src len s = Inr (tmp, s1)"
  shows "format_index s1 = format_index s" "conversion_index s1 = conversion_index s"
    "parameter_index s1 = parameter_index s" "args_read_pos s1 = args_read_pos s"
    "tmp \<noteq> 0 \<Longrightarrow> tmp = len"
  using assms by (auto simp: tryToWriteAStringToBuffer_def split: if_splits)

lemma literal_run_progress:
  assumes "literal_run info len s = Continue s'"
  shows "format_index s < format_index s'" "conversion_index s' = conversion_index s"
proof -
  from assms obtain tmp s1 where
    t: "tryToWriteAStringToBuffer (drop (format_index s) (format_str info)) len s = Inr (tmp, s1)"
    and n: "tmp \<noteq> 0"
    and s': "s' = (finishWriting tmp s1)\<lparr>format_index := format_index s1 + tmp\<rparr>"
    by (auto simp: literal_run_def split: sum.splits if_splits)
  from tryToWriteAStringToBuffer_fields(1,2) [OF t] n s'
  show "format_index s < format_index s'" "conversion_index s' = conversion_index s"
    by (simp_all add: finishWriting_def)
qed

lemma tryToWriteArgToBuffer_fields:
  assumes "tryToWriteArgToBuffer pf fmt w p arg s = (tmp, s1)"
  shows "format_index s1 = format_index s" "conversion_index s1 = conversion_index s"
    "parameter_index s1 = parameter_index s" "args_read_pos s1 = args_read_pos s"
  using assms by (auto simp: tryToWriteArgToBuffer_def Let_def split: if_splits prod.splits)

lemma read_dynamic_fields:
  assumes "read_dynamic kind info mem s = Inr (v, s1)"
  shows "format_index s1 = format_index s" "conversion_index s1 = conversion_index s"
  using assms by (auto simp: read_dynamic_def split: option.splits if_splits sum.splits)

lemma expand_specifier_fields:
  assumes "expand_specifier pf info mem fragment w p s = Inr (tmp, arg_size, s1)"
  shows "format_index s1 = format_index s" "conversion_index s1 = conversion_index s"
    "parameter_index s1 = parameter_index s"
proof -
  consider "s1 = s" |
    arg tmp' s0 rp where "tryToWriteArgToBuffer pf (c_str (conversion_storage info) (storage_pos fragment)) w p arg s = (tmp', s0)"
      "s1 = s0\<lparr>args_read_pos := rp\<rparr>"
    using assms
    by (auto simp: expand_specifier_def Let_def split: option.splits sum.splits prod.splits)
  then show "format_index s1 = format_index s" "conversion_index s1 = conversion_index s"
    "parameter_index s1 = parameter_index s"
    by (cases; simp add: tryToWriteArgToBuffer_fields)+
qed

lemma specifier_branch_progress:
  assumes "specifier_branch pf info mem fragment s = Continue s'"
  shows "format_index s \<le> format_index s'" "conversion_index s' = conversion_index s + 1"
proof -
  from assms obtain w s1 p s2 tmp arg_size s3 sz where
    r1: "read_dynamic DYNAMIC_WIDTH info mem s = Inr (w, s1)"
    and r2: "read_dynamic DYNAMIC_PRECISION info mem s1 = Inr (p, s2)"
    and e: "expand_specifier pf info mem fragment w p s2 = Inr (tmp, arg_size, s3)"
    and s': "s' = (finishWriting tmp s3)
                         \<lparr>args_read_pos := args_read_pos s3 + sz,
                          conversion_index := conversion_index s3 + 1,
                          parameter_index := parameter_index s3 + 1,
                          format_index := format_index s3 + specifier_length fragment\<rparr>"
    by (auto simp: specifier_branch_def Let_def split: sum.splits prod.splits if_splits option.splits)
  have "format_index s3 = format_index s" "conversion_index s3 = conversion_index s"
    using read_dynamic_fields [OF r1] read_dynamic_fields [OF r2] expand_specifier_fields(1,2) [OF e]
    by simp_all
  with s' show "format_index s \<le> format_index s'" "conversion_index s' = conversion_index s + 1"
    by simp_all
qed

lemma body_iteration_progress:
  assumes "body_iteration pf info mem s = Continue s'"
  shows "format_len info - format_index s' + (num_conversions info - conversion_index s') <
         format_len info - format_index s + (num_conversions info - conversion_index s) \<or>
         format_len info \<le> format_index s"
proof (cases "conversion_index s < num_conversions info")
  case False
  then have "literal_run info (format_len info - format_index s) s = Continue s'"
    using assms by (simp add: body_iteration_def)
  from literal_run_progress [OF this] show ?thesis by arith
next
  case True
  then obtain fragment where f: "nth_checked (format_fragments info) (conversion_index s) = Some fragment"
    using assms by (auto simp: body_iteration_def split: option.splits)
  show ?thesis
  proof (cases "format_index s < format_pos fragment")
    case True
    then have "literal_run info (format_pos fragment - format_index s) s = Continue s'"
      using assms f \<open>conversion_index s < num_conversions info\<close> by (simp add: body_iteration_def)
    from literal_run_progress [OF this] show ?thesis by arith
  next
    case False
    then have "specifier_branch pf info mem fragment s = Continue s'"
      using assms f \<open>conversion_index s < num_conversions info\<close> by (simp add: body_iteration_def)
    from specifier_branch_progress [OF this] \<open>conversion_index s < num_conversions info\<close>
    show ?thesis by arith
  qed
qed

text \<open>
  The \<open>while\<close> loop of \<open>write\<close>. Every pass that does not return moves
  \<open>format_index\<close> or \<open>conversion_index\<close> forward, so the loop ends.
\<close>

function write_body :: "formatter \<Rightarrow> StaticLogInfo \<Rightarrow> string \<Rightarrow> LogAssembler \<Rightarrow> flow" where
  "write_body pf info mem s =
     (if format_index s < format_len info
      then (case body_iteration pf info mem s of
              Continue s' \<Rightarrow> write_body pf info mem s'
            | Return s' \<Rightarrow> Return s'
            | Fault e \<Rightarrow> Fault e)
      else Continue s)"
  by pat_completeness auto
termination
proof (relation "measure (\<lambda>(pf, info, mem, s).
         format_len info - format_index s + (num_conversions info - conversion_index s))",
       goal_cases)
  case 1
  show ?case by simp
next
  case (2 pf info mem s s')
  then show ?case using body_iteration_progress [of pf info mem s s'] by auto
qed

text \<open>The four prefix phases, in their fixed order.\<close>

definition write_prefix :: "StaticLogInfo \<Rightarrow> LogAssembler \<Rightarrow> flow" where
  "write_prefix info s =
     then_do (then_do (then_do (write_timestamp s) write_filename_and_linenum)
       (write_severity info)) write_producer_id"

text \<open>
  \<open>write\<close>: the number of bytes it returns and the assembler it leaves, or the error
  that ends it.
\<close>

definition assembler_write :: "formatter \<Rightarrow> LogAssembler \<Rightarrow> assembler_error + nat \<times> LogAssembler" where
  "assembler_write pf s =
     (if is_full s then Inr (0, s)
      else case (static_log_info s, dynamic_log_info s) of
        (Some info, Some dyn) \<Rightarrow>
          (case then_do (then_do (write_prefix info (s\<lparr>bytes_last_writed := 0\<rparr>))
                   (write_body pf info (arg_data dyn)))
                   write_end_of_log of
             Continue s' \<Rightarrow> Inr (bytes_last_writed s', s')
           | Return s' \<Rightarrow> Inr (bytes_last_writed s', s')
           | Fault e \<Rightarrow> Inl e)
      | _ \<Rightarrow> Inl Null_pointer)"

text \<open>What the assembler has produced in the installed region.\<close>

definition assembled :: "LogAssembler \<Rightarrow> string" where
  "assembled s = take (writed_count s) (buffer s)"

section \<open>Properties of states and of flows\<close>

text \<open>
  \<open>room_left B s\<close>: the installed region has \<open>B\<close> bytes and the assembler has
  written fewer than \<open>B\<close>. \<open>flow_holds P r\<close>: the assembler that a step hands on or
  returns satisfies \<open>P\<close>.
\<close>

definition room_left :: "nat \<Rightarrow> LogAssembler \<Rightarrow> bool" where
  "room_left B s = (buffer_size s = B \<and> writed_count s < B)"

definition flow_holds :: "(LogAssembler \<Rightarrow> bool) \<Rightarrow> flow \<Rightarrow> bool" where
  "flow_holds P r = (case r of Continue s \<Rightarrow> P s | Return s \<Rightarrow> P s | Fault e \<Rightarrow> True)"

section \<open>The scenarios of the specification\<close>

text \<open>An assembler whose uninitialised members are all zero.\<close>

definition LogAssembler_zero :: LogAssembler where
  "LogAssembler_zero =
     \<lparr>write_pos = 0, buffer = [], buffer_size = 0, writed_count = 0, bytes_last_writed = 0,
      conversion_index = 0, parameter_index = 0, format_index = 0,
      static_log_info = None, dynamic_log_info = None, args_read_pos = 0,
      timestamp_str = [], filename_and_linenum = [], producer_id = [], end_of_log = [],
      is_full = False, is_timestamp_writed = False, is_filename_and_linenum_writed = False,
      is_severity_writed = False, is_producer_id_writed = False,
      is_end_of_log_writed = False\<rparr>"

text \<open>
  A consumer that constructs an assembler, installs a zeroed region of \<open>n\<close> bytes and
  loads a record of producer 0.
\<close>

definition fresh_assembler ::
  "(int \<Rightarrow> string) \<Rightarrow> nat \<Rightarrow> StaticLogInfo \<Rightarrow> DynamicLogInfo \<Rightarrow> LogAssembler" where
  "fresh_assembler render n info dyn =
     loadLogInfo render (Some info) (Some dyn) 0
       (setBuffer (replicate n NUL) n (LogAssembler_new LogAssembler_zero))"

text \<open>
  Scenario 1: \<open>OLOG(LogLevel::INFO, "Hello %d World\n", 42)\<close> at line 10 of
  \<open>a.cc\<close>, at the millisecond 1700000000000, with the threshold at its initial
  \<open>INFO\<close>. The format array has 16 characters, the terminating NUL among them.
\<close>

definition c2_format :: string where
  "c2_format = ''Hello %d World'' @ [CHR 0x0A, NUL]"

definition c2_call :: "(StaticLogInfo \<times> DynamicLogInfo) option" where
  "c2_call = OLOG LogLevel_INFO 0 ''a.cc'' 10 LogLevel_INFO c2_format [Integral 4 42] 1700000000000"

definition c2_info :: StaticLogInfo where
  "c2_info =
     \<lparr>filename = ''a.cc'', line_number = 10, log_level = LogLevel_INFO,
      format_len = 16, num_conversions = 1, num_parameters = 1,
      format_str = c2_format, conversion_storage = ''%d'' @ [NUL],
      format_fragments =
        [\<lparr>conversion_type = int_t, specifier_length = 2, format_pos = 6, storage_pos = 0\<rparr>],
      param_types = [NON_STRING], param_sizes = [4]\<rparr>"

definition c2_record :: DynamicLogInfo where
  "c2_record = \<lparr>log_id = 0, info_size = 28, ms_timestamp = 1700000000000,
                 arg_data = [CHR 0x2A, NUL, NUL, NUL]\<rparr>"

text \<open>The text of \<open>strftime\<close> for that second, in a process whose time zone is UTC.\<close>

definition c2_render :: "int \<Rightarrow> string" where
  "c2_render seconds = ''2023-11-14 22:13:20.''"


text \<open>What the model writes for scenario 1 into a region with room for it.\<close>

definition c2_output :: string where
  "c2_output = ''2023-11-14 22:13:20.000 a.cc:10 [INFO][0]: Hello 42 World'' @
               [CHR 0x0A, NUL, CHR 0x0D, CHR 0x0A]"

text \<open>
  The empty string, logged with a width:
  \<open>OLOG(LogLevel::INFO, "%5s", "")\<close> under the conditions of scenario 1. The
  region installed in the assembler has 46 bytes, three more than the prefix of the line.
\<close>

definition c4_format :: string where
  "c4_format = ''%5s'' @ [NUL]"

definition c4_call :: "(StaticLogInfo \<times> DynamicLogInfo) option" where
  "c4_call = OLOG LogLevel_INFO 0 ''a.cc'' 10 LogLevel_INFO c4_format [Char_ptr 4096 []] 1700000000000"

definition c4_info :: StaticLogInfo where
  "c4_info =
     \<lparr>filename = ''a.cc'', line_number = 10, log_level = LogLevel_INFO,
      format_len = 4, num_conversions = 1, num_parameters = 1,
      format_str = c4_format, conversion_storage = ''%5s'' @ [NUL],
      format_fragments =
        [\<lparr>conversion_type = const_char_ptr_t, specifier_length = 3, format_pos = 0,
          storage_pos = 0\<rparr>],
      param_types = [STRING_WITH_NO_PRECISION], param_sizes = [0]\<rparr>"

definition c4_record :: DynamicLogInfo where
  "c4_record = \<lparr>log_id = 0, info_size = 33, ms_timestamp = 1700000000000,
                 arg_data = replicate 9 NUL\<rparr>"

definition c4_start :: LogAssembler where
  "c4_start = fresh_assembler c2_render 46 c4_info c4_record"

definition c4_fragment :: FormatFragment where
  "c4_fragment =
     \<lparr>conversion_type = const_char_ptr_t, specifier_length = 3, format_pos = 0, storage_pos = 0\<rparr>"

text \<open>The assembler of this scenario after the prefix, in front of \<open>%5s\<close>.\<close>

definition c4_before :: LogAssembler where
  "c4_before =
     (case write_prefix c4_info (c4_start\<lparr>bytes_last_writed := 0\<rparr>) of
        Continue s \<Rightarrow> s | _ \<Rightarrow> c4_start)"

text \<open>
  The same call with a string of one character, \<open>OLOG(LogLevel::INFO, "%5s", "a")\<close>,
  into the same region.
\<close>

definition c4_call_a :: "(StaticLogInfo \<times> DynamicLogInfo) option" where
  "c4_call_a = OLOG LogLevel_INFO 0 ''a.cc'' 10 LogLevel_INFO c4_format [Char_ptr 4096 ''a''] 1700000000000"

definition c4_record_a :: DynamicLogInfo where
  "c4_record_a = \<lparr>log_id = 0, info_size = 34, ms_timestamp = 1700000000000,
                   arg_data = [CHR 0x01] @ replicate 7 NUL @ ''a'' @ [NUL]\<rparr>"

definition c4_start_a :: LogAssembler where
  "c4_start_a = fresh_assembler c2_render 46 c4_info c4_record_a"

definition c4_before_a :: LogAssembler where
  "c4_before_a =
     (case write_prefix c4_info (c4_start_a\<lparr>bytes_last_writed := 0\<rparr>) of
        Continue s \<Rightarrow> s | _ \<Rightarrow> c4_start_a)"

text \<open>The region the consumer installs next: 80 zeroed bytes.\<close>

definition c4_next_region :: string where
  "c4_next_region = replicate 80 NUL"

text \<open>
  Scenario 5: \<open>OLOG(LogLevel::INFO, "val=%.*s|", 3, "abcdef")\<close> under the conditions of
  scenario 1. The format array has 10 characters, the terminating NUL among them.
\<close>

definition c7_format :: string where
  "c7_format = ''val=%.*s|'' @ [NUL]"

definition c7_call :: "(StaticLogInfo \<times> DynamicLogInfo) option" where
  "c7_call = OLOG LogLevel_INFO 0 ''a.cc'' 10 LogLevel_INFO c7_format
               [Integral 4 3, Char_ptr 4096 ''abcdef''] 1700000000000"

definition c7_info :: StaticLogInfo where
  "c7_info =
     \<lparr>filename = ''a.cc'', line_number = 10, log_level = LogLevel_INFO,
      format_len = 10, num_conversions = 1, num_parameters = 2,
      format_str = c7_format, conversion_storage = ''%.*s'' @ [NUL],
      format_fragments =
        [\<lparr>conversion_type = const_char_ptr_t, specifier_length = 4, format_pos = 4,
          storage_pos = 0\<rparr>],
      param_types = [DYNAMIC_PRECISION, STRING_WITH_DYNAMIC_PRECISION], param_sizes = [4, 0]\<rparr>"

definition c7_record :: DynamicLogInfo where
  "c7_record = \<lparr>log_id = 0, info_size = 40, ms_timestamp = 1700000000000,
                 arg_data = [CHR 0x03, NUL, NUL, NUL] @
                            [CHR 0x03, NUL, NUL, NUL, NUL, NUL, NUL, NUL] @ ''abc'' @ [NUL]\<rparr>"

text \<open>
  The escape: \<open>OLOG(LogLevel::INFO, "100%%")\<close> under the conditions of scenario 1. The
  format array has 6 characters, the terminating NUL among them.
\<close>

definition c3_format :: string where
  "c3_format = ''100%%'' @ [NUL]"

definition c3_call :: "(StaticLogInfo \<times> DynamicLogInfo) option" where
  "c3_call = OLOG LogLevel_INFO 0 ''a.cc'' 10 LogLevel_INFO c3_format [] 1700000000000"

definition c3_info :: StaticLogInfo where
  "c3_info =
     \<lparr>filename = ''a.cc'', line_number = 10, log_level = LogLevel_INFO,
      format_len = 6, num_conversions = 0, num_parameters = 0,
      format_str = c3_format, conversion_storage = [], format_fragments = [],
      param_types = [], param_sizes = []\<rparr>"

definition c3_record :: DynamicLogInfo where
  "c3_record = \<lparr>log_id = 0, info_size = 24, ms_timestamp = 1700000000000, arg_data = []\<rparr>"

text \<open>The format array of the test case \<open>MakeConversionStorage\<close> of the repository.\<close>

definition c5_format :: string where
  "c5_format = ''pad%17.31Lfng, pad%17.31lcing,pad%17.31lluing%*.*lu'' @ [NUL]"

section \<open>Results: Logger\<close>

lemma ptr_diff_self: "ptr_diff p p = 0"
  by (simp add: ptr_diff_def to_size_t_def)

lemma level_cases: "\<not> (5::8 word) \<le> 0" "\<not> (5::8 word) \<le> 1" "\<not> (5::8 word) \<le> 2" "\<not> (5::8 word) \<le> 3" "\<not> (5::8 word) \<le> 4"
  by (simp_all add: word_le_nat_alt)

text \<open>
  C9. \<open>setLogLevelInternal\<close> clamps: every level at or above
  \<open>NUMBER_OF_LOG_LEVELS\<close> is stored as \<open>DEBUG\<close> (the byte 4, that is
  \<open>NUMBER_OF_LOG_LEVELS - 1\<close>) and read back as such by \<open>getLogLevelInternal\<close>;
  each of the five valid levels is stored as it is given.
\<close>

theorem setLogLevel_clamps:
  "(NUMBER_OF_LOG_LEVELS \<le> level \<longrightarrow>
      getLogLevelInternal (setLogLevelInternal level lg) = LogLevel_DEBUG) \<and>
   (level \<in> {LogLevel_NONE, LogLevel_ERROR, LogLevel_WARNING, LogLevel_INFO, LogLevel_DEBUG} \<longrightarrow>
      getLogLevelInternal (setLogLevelInternal level lg) = level) \<and>
   LogLevel_DEBUG = NUMBER_OF_LOG_LEVELS - 1"
proof (intro conjI impI)
  assume "NUMBER_OF_LOG_LEVELS \<le> level"
  then show "getLogLevelInternal (setLogLevelInternal level lg) = LogLevel_DEBUG"
    by (simp add: setLogLevelInternal_def getLogLevelInternal_def)
next
  assume "level \<in> {LogLevel_NONE, LogLevel_ERROR, LogLevel_WARNING, LogLevel_INFO, LogLevel_DEBUG}"
  then have "\<not> NUMBER_OF_LOG_LEVELS \<le> level"
    using level_cases by auto
  then show "getLogLevelInternal (setLogLevelInternal level lg) = level"
    by (simp add: setLogLevelInternal_def getLogLevelInternal_def)
next
  show "LogLevel_DEBUG = NUMBER_OF_LOG_LEVELS - 1" by simp
qed

theorem setLogLevel_clamps_witness:
  "NUMBER_OF_LOG_LEVELS \<le> (200 :: LogLevel) \<and>
   getLogLevelInternal (setLogLevelInternal 200 Logger_init) = LogLevel_DEBUG \<and>
   getLogLevelInternal (setLogLevelInternal LogLevel_WARNING Logger_init) = LogLevel_WARNING"
proof -
  have h: "NUMBER_OF_LOG_LEVELS \<le> (200 :: LogLevel)" by simp
  have m: "LogLevel_WARNING \<in> {LogLevel_NONE, LogLevel_ERROR, LogLevel_WARNING, LogLevel_INFO, LogLevel_DEBUG}"
    by simp
  from setLogLevel_clamps [of 200 Logger_init] h
  have a: "getLogLevelInternal (setLogLevelInternal 200 Logger_init) = LogLevel_DEBUG" by blast
  from setLogLevel_clamps [of LogLevel_WARNING Logger_init] m
  have b: "getLogLevelInternal (setLogLevelInternal LogLevel_WARNING Logger_init) = LogLevel_WARNING" by blast
  from h a b show ?thesis by blast
qed

text \<open>
  C8. When the file exists but cannot be read and written, or \<open>open\<close> fails,
  \<open>setLogFileInternal\<close> throws \<open>std::ios_base::failure\<close>, leaves
  \<open>output_fd\<close> (the whole logger) as it was and closes nothing. Otherwise the
  descriptor returned by \<open>open\<close> is installed, and the previous one is closed when it is
  positive; these are the only closes.
\<close>

theorem setLogFile_error_atomicity:
  "((access_F_OK os = 0 \<and> access_R_OK_W_OK os \<noteq> 0) \<or> open_result os < 0 \<longrightarrow>
      (\<exists>msg. setLogFileInternal os path lg = (Inl (Ios_base_failure msg), lg, []))) \<and>
   (\<not> (access_F_OK os = 0 \<and> access_R_OK_W_OK os \<noteq> 0) \<and> 0 \<le> open_result os \<longrightarrow>
      setLogFileInternal os path lg =
        (Inr (), lg\<lparr>output_fd := open_result os\<rparr>,
         if output_fd lg > 0 then [output_fd lg] else []))"
  by (auto simp: setLogFileInternal_def Let_def)

theorem setLogFile_error_atomicity_witness:
  "setLogFileInternal \<lparr>access_F_OK = 0, access_R_OK_W_OK = - 1, open_result = 7, strerror_text = []\<rparr>
     ''log.txt'' Logger_init = (Inl (Ios_base_failure ''Unable to read/write file: log.txt''), Logger_init, []) \<and>
   setLogFileInternal \<lparr>access_F_OK = - 1, access_R_OK_W_OK = - 1, open_result = - 1, strerror_text = ''Permission denied''\<rparr>
     ''log.txt'' Logger_init = (Inl (Ios_base_failure ''Can't open file: log.txt: Permission denied''), Logger_init, []) \<and>
   setLogFileInternal \<lparr>access_F_OK = 0, access_R_OK_W_OK = 0, open_result = 7, strerror_text = []\<rparr>
     ''log.txt'' Logger_init = (Inr (), Logger_init\<lparr>output_fd := 7\<rparr>, [1])"
proof -
  let ?os = "\<lparr>access_F_OK = 0, access_R_OK_W_OK = 0, open_result = 7, strerror_text = []\<rparr>"
  have "\<not> (access_F_OK ?os = 0 \<and> access_R_OK_W_OK ?os \<noteq> 0) \<and> 0 \<le> open_result ?os"
    by simp
  with setLogFile_error_atomicity [of ?os "''log.txt''" Logger_init]
  have "setLogFileInternal ?os ''log.txt'' Logger_init = (Inr (), Logger_init\<lparr>output_fd := 7\<rparr>, [1])"
    by (simp add: Logger_init_def STDOUT_FILENO_def)
  then show ?thesis
    by (simp add: setLogFileInternal_def)
qed

section \<open>Results: StagingBuffer\<close>

lemma to_size_t_nat: "to_size_t (int n) = n mod 2 ^ 64"
proof -
  have "int n mod 2 ^ 64 = int (n mod 2 ^ 64)" by (simp add: zmod_int)
  then show ?thesis by (simp add: to_size_t_def)
qed


lemmas pd = ptr_diff_def to_size_t_def

lemma c1_committed_state:
  "reserveProducerSpace 0 10 True c1_initial = (Returns (Some 0), c1_initial)"
  "finishReservation 10 c1_initial = (Returns (), c1_committed)"
  "c1_committed = \<lparr>producer_pos = 10, end_of_data = 16, consumer_pos = 0, buffer_id = 0,
      should_be_destructed = False, capacity = 16, available_bytes = 6\<rparr>"
  by (simp_all add: c1_committed_def c1_initial_def StagingBuffer_new_def
        reserveProducerSpace_def finishReservation_def pd)

lemma c1_consumed_state:
  "peek c1_committed = ((0, 10), c1_committed)"
  "consume 10 c1_committed = (Returns (), c1_consumed)"
  "c1_consumed = \<lparr>producer_pos = 10, end_of_data = 16, consumer_pos = 10, buffer_id = 0,
      should_be_destructed = False, capacity = 16, available_bytes = 6\<rparr>"
  by (simp_all add: c1_consumed_def c1_committed_state(3) peek_def consume_def pd)

lemma c1_first_pass:
  "reserve_iteration 10 True c1_consumed = (None, c1_wrapped 10)"
  "reserve_iteration 10 False c1_consumed = (Some None, c1_wrapped 10)"
  by (simp_all add: c1_consumed_state(3) reserve_iteration_def reserve_tail_def c1_wrapped_def Let_def pd)

lemma c1_later_pass:
  "reserve_iteration 10 True (c1_wrapped a) = (None, c1_wrapped 0)"
  by (simp add: reserve_iteration_def reserve_tail_def c1_wrapped_def Let_def ptr_diff_self)

lemma c1_spin: "a \<le> 10 \<Longrightarrow> fst (reserveProducerSpaceInternal fuel 10 True (c1_wrapped a)) = Still_spinning"
proof (induction fuel arbitrary: a)
  case 0
  then show ?case by (simp add: c1_wrapped_def)
next
  case (Suc fuel)
  have "available_bytes (c1_wrapped a) \<le> 10" using Suc.prems by (simp add: c1_wrapped_def)
  then show ?case using Suc.IH [of 0] by (simp add: c1_later_pass)
qed

lemma c1_spin_state:
  "reserveProducerSpaceInternal fuel 10 True (c1_wrapped 0) = (Still_spinning, c1_wrapped 0)"
proof (induction fuel)
  case 0
  then show ?case by (simp add: c1_wrapped_def)
next
  case (Suc fuel)
  have "available_bytes (c1_wrapped 0) \<le> 10" by (simp add: c1_wrapped_def)
  then show ?case using Suc.IH by (simp add: c1_later_pass)
qed

lemma c1_blocking:
  "reserveProducerSpace (Suc fuel) 10 True c1_consumed =
     (Still_spinning, c1_wrapped (if fuel = 0 then 10 else 0))"
proof -
  have a: "available_bytes c1_consumed \<le> 10" "capacity c1_consumed = 16"
    by (simp_all add: c1_consumed_state(3))
  have b: "reserveProducerSpace (Suc fuel) 10 True c1_consumed =
        reserveProducerSpaceInternal fuel 10 True (c1_wrapped 10)"
    using a by (simp add: reserveProducerSpace_def c1_first_pass)
  show ?thesis
  proof (cases fuel)
    case 0
    then show ?thesis using b by (simp add: c1_wrapped_def)
  next
    case (Suc k)
    have "available_bytes (c1_wrapped 10) \<le> 10" by (simp add: c1_wrapped_def)
    then show ?thesis using b Suc c1_spin_state [of k] by (simp add: c1_later_pass)
  qed
qed

lemma c1_blocking_0: "reserveProducerSpace 0 10 True c1_consumed = (Still_spinning, c1_consumed)"
  by (simp add: reserveProducerSpace_def c1_consumed_state(3))

text \<open>
  C1, as stated, fails. In the scenario (capacity 16, 10 bytes committed and consumed) a
  blocking reservation of 10 bytes does not return while the consumer stays where it is:
  whatever the number of passes through the loop, \<open>reserveProducerSpace\<close> is still
  spinning.
\<close>

theorem c1_reservation_never_returns:
  "\<not> (\<exists>fuel r. fst (reserveProducerSpace fuel 10 True c1_consumed) = Returns r)"
proof
  assume "\<exists>fuel r. fst (reserveProducerSpace fuel 10 True c1_consumed) = Returns r"
  then obtain fuel r where h: "fst (reserveProducerSpace fuel 10 True c1_consumed) = Returns r"
    by blast
  show False
  proof (cases fuel)
    case 0
    then show ?thesis using h by (simp add: c1_blocking_0)
  next
    case (Suc k)
    then show ?thesis using h by (simp add: c1_blocking)
  qed
qed

text \<open>
  C1, amended. In that scenario the first pass of the loop publishes the wrap-around
  (\<open>end_of_data\<close> becomes \<open>storage + 10\<close>, \<open>producer_pos\<close> becomes
  \<open>storage\<close>), which frees exactly 10 bytes: not strictly more than the 10 requested.
  The blocking call then keeps spinning (it never returns null) for as long as
  \<open>consumer_pos\<close> stays at \<open>storage + 10\<close>; once the consumer's next \<open>peek\<close>
  has moved \<open>consumer_pos\<close> back to \<open>storage\<close>, the next pass of the loop
  returns \<open>storage\<close>. The non-blocking call publishes the wrap-around and returns null.
\<close>

theorem c1_reservation_wraps_then_waits:
  "reserveProducerSpace (Suc fuel) 10 True c1_consumed =
     (Still_spinning, c1_wrapped (if fuel = 0 then 10 else 0)) \<and>
   end_of_data (c1_wrapped a) = 0 + 10 \<and> producer_pos (c1_wrapped a) = 0 \<and>
   consumer_pos (c1_wrapped a) = 0 + 10 \<and>
   peek (c1_wrapped a) = ((0, 0), (c1_wrapped a)\<lparr>consumer_pos := 0\<rparr>) \<and>
   reserveProducerSpaceInternal (Suc fuel) 10 True (snd (peek (c1_wrapped 10))) =
     (Returns (Some 0), (c1_wrapped 16)\<lparr>consumer_pos := 0\<rparr>) \<and>
   reserveProducerSpaceInternal (Suc fuel) 10 True (snd (peek (c1_wrapped 0))) =
     (Returns (Some 0), (c1_wrapped 16)\<lparr>consumer_pos := 0\<rparr>) \<and>
   reserveProducerSpace (Suc fuel) 10 False c1_consumed = (Returns None, c1_wrapped 10)"
proof -
  have p: "peek (c1_wrapped a) = ((0, 0), (c1_wrapped a)\<lparr>consumer_pos := 0\<rparr>)" for a
    by (simp add: peek_def c1_wrapped_def Let_def pd)
  have r: "reserveProducerSpaceInternal (Suc fuel) 10 True (snd (peek (c1_wrapped 10))) =
     (Returns (Some 0), (c1_wrapped 16)\<lparr>consumer_pos := 0\<rparr>)"
    unfolding p by (simp add: c1_wrapped_def reserve_iteration_def Let_def pd)
  have r0: "reserveProducerSpaceInternal (Suc fuel) 10 True (snd (peek (c1_wrapped 0))) =
     (Returns (Some 0), (c1_wrapped 16)\<lparr>consumer_pos := 0\<rparr>)"
    unfolding p by (simp add: c1_wrapped_def reserve_iteration_def Let_def pd)
  have n: "reserveProducerSpace (Suc fuel) 10 False c1_consumed = (Returns None, c1_wrapped 10)"
    using c1_first_pass(2) by (simp add: reserveProducerSpace_def c1_consumed_state(3))
  show ?thesis using c1_blocking p r r0 n by (simp add: c1_wrapped_def)
qed

section \<open>Results: the destroyable buffer is empty\<close>



lemma consistent_reserve_tail:
  "consistent s u \<Longrightarrow> consistent (snd (reserve_tail n blocking s)) u"
  by (simp add: reserve_tail_def)














section \<open>Results: running the model\<close>

text \<open>The equations that evaluate a run of the model on given data.\<close>

lemma le_encode_numeral:
  "le_encode (numeral k) v = char_of (v mod 256) # le_encode (pred_numeral k) (v div 256)"
  by (simp add: numeral_eq_Suc)

lemma replicate_numeral: "replicate (numeral k) x = x # replicate (pred_numeral k) x"
  by (simp add: numeral_eq_Suc)

lemmas eval_data = le_encode_numeral replicate_numeral char_of_def signed_divide_int_def
  signed_modulo_int_def Let_def to_size_t_def

lemmas eval_chars = IsFlag_def IsDigit_def IsLength_def IsConversionSpecifier_def

lemmas eval_analysis = OLOG_analysis_def FormatParametersCount_def count_parameters.simps
  GetParamInfo_def ConversionSpecifiersCount_def SizeConversionStorageNeeds_def
  AnalyzeFormatParameters_def MakeConversionStorage_def GetConversionSpecifierChar_def
  GetFormatFragments_def GetFormatFragment_def GetConversionType_def
  GetConversionSpecifierPosition_def GetConversionSpecifierLength_def
  GetConversionSpecifierPositionInStorage_def upt_rec
  skip_flags_def skip_width_def skip_precision_def skip_length_def check_conversion_def
  param_width_def param_precision_def size_width_def size_precision_def char_width_def
  char_precision_def no_length_def classify_conversion_def

lemmas eval_codec = Log_def GetParamSizes_def GetParamSize_def GetArgSize_def AsSizet_def
  StoreArgument_def

lemmas eval_printf = printf_ref_def printf_width_def printf_precision_def pad_left_def
  render_decimal_def digits_value_def IsDigit_def

lemmas eval_assembler = fresh_assembler_def loadLogInfo_def loadStaticInfo_def
  loadDynamicInfo_def setProducerId_def resetFlags_def resetIndices_def setBuffer_def
  LogAssembler_new_def LogAssembler_zero_def c_strftime_def
  assembler_write_def write_prefix_def then_do_def write_timestamp_def write_filename_and_linenum_def
  write_severity_def write_producer_id_def write_end_of_log_def
  tryToWriteAStringToBuffer_def getFreeBytes_def finishWriting_def mem_write_def
  severity_str_def nth_checked_def
  body_iteration_def literal_run_def specifier_branch_def read_dynamic_def
  expand_specifier_def load_conversion_arg_def tryToWriteArgToBuffer_def c_snprintf_def
  LoadArgument_signed_def LoadArgument_unsigned_def read_bytes_def le_decode_def
  as_signed_def as_unsigned_def c_str_def assembled_def hasRemainingData_def

subsection \<open>Scenario 1\<close>

lemma c2_analysis:
  "OLOG_analysis c2_format =
     Some (Inr (''%d'' @ [NUL],
       [\<lparr>conversion_type = int_t, specifier_length = 2, format_pos = 6, storage_pos = 0\<rparr>],
       [NON_STRING]))"
  by (simp add: eval_analysis eval_chars c2_format_def)

lemma c2_call_eq: "c2_call = Some (c2_info, c2_record)"
  by (simp add: c2_call_def OLOG_def c2_analysis)
     (simp add: eval_codec eval_data c2_info_def c2_record_def c2_format_def)

lemma c2_run_eval:
  "(case assembler_write printf_ref (fresh_assembler c2_render 80 c2_info c2_record) of
      Inr (n, s) \<Rightarrow> Some (n, assembled s, buffer_size s, is_full s, hasRemainingData s)
    | Inl e \<Rightarrow> None) =
   Some (61, c2_output, 80, False, False)"
  by (simp add: eval_assembler eval_printf eval_data c2_info_def c2_record_def c2_render_def
      c2_format_def c2_output_def)

lemma c2_run:
  "\<exists>s. assembler_write printf_ref (fresh_assembler c2_render 80 c2_info c2_record) = Inr (61, s) \<and>
     assembled s = c2_output \<and> buffer_size s = 80 \<and> \<not> is_full s \<and> \<not> hasRemainingData s"
proof (cases "assembler_write printf_ref (fresh_assembler c2_render 80 c2_info c2_record)")
  case (Inl e)
  with c2_run_eval show ?thesis by (simp only: sum.case option.distinct)
next
  case (Inr r)
  obtain n s where r: "r = (n, s)" by (cases r)
  from c2_run_eval have
    "Some (n, assembled s, buffer_size s, is_full s, hasRemainingData s) =
     Some (61, c2_output, 80, False, False)"
    by (simp only: Inr r sum.case prod.case)
  then have "n = 61 \<and> assembled s = c2_output \<and> buffer_size s = 80 \<and> \<not> is_full s \<and>
    \<not> hasRemainingData s"
    by (simp only: option.inject prod.inject simp_thms)
  with Inr r show ?thesis by (intro exI [of _ s]) (simp only: simp_thms)
qed

lemma c2_start:
  "writed_count (fresh_assembler c2_render 80 c2_info c2_record) = 0"
  "buffer_size (fresh_assembler c2_render 80 c2_info c2_record) = 80"
  "\<not> is_full (fresh_assembler c2_render 80 c2_info c2_record)"
  by (simp_all add: eval_assembler eval_data c2_info_def c2_record_def c2_render_def c2_format_def)

section \<open>Results: the output region is never filled\<close>

lemma getFreeBytes_le:
  assumes "writed_count s \<le> buffer_size s"
  shows "getFreeBytes s \<le> buffer_size s - writed_count s"
proof -
  have "int (buffer_size s) - int (writed_count s) = int (buffer_size s - writed_count s)"
    using assms by simp
  then have "getFreeBytes s = (buffer_size s - writed_count s) mod 2 ^ 64"
    by (simp only: getFreeBytes_def to_size_t_nat)
  then show ?thesis by simp
qed

lemma room_left_finishWriting:
  assumes "room_left B s" and "n < getFreeBytes s"
  shows "room_left B (finishWriting n s)"
proof -
  have "writed_count s < B" "buffer_size s = B" using assms(1) by (simp_all add: room_left_def)
  then have "n < B - writed_count s" using assms(2) getFreeBytes_le [of s] by simp
  then have "writed_count s + n < B" by simp
  moreover have "(writed_count s + n) mod 2 ^ 64 \<le> writed_count s + n" by simp
  ultimately show ?thesis using \<open>buffer_size s = B\<close>
    by (simp add: room_left_def finishWriting_def del: mod_less_eq_dividend)
qed

lemma room_left_finishWriting_0:
  assumes "room_left B s"
  shows "room_left B (finishWriting 0 s)"
proof -
  have "writed_count s mod 2 ^ 64 \<le> writed_count s" by simp
  then show ?thesis using assms
    by (simp add: room_left_def finishWriting_def del: mod_less_eq_dividend)
qed

lemma tryToWriteAStringToBuffer_strict:
  assumes "tryToWriteAStringToBuffer src len s = Inr (tmp, s1)"
  shows "tmp = 0 \<or> (tmp = len \<and> len < getFreeBytes s)"
    and "buffer_size s1 = buffer_size s" and "writed_count s1 = writed_count s"
  using assms by (auto simp: tryToWriteAStringToBuffer_def split: if_splits)

lemma tryToWriteAStringToBuffer_room:
  assumes "tryToWriteAStringToBuffer src len s = Inr (tmp, s1)" and "room_left B s"
  shows "room_left B s1" and "tmp \<noteq> 0 \<Longrightarrow> room_left B (finishWriting tmp s1)"
proof -
  show r: "room_left B s1"
    using assms tryToWriteAStringToBuffer_strict(2,3) [OF assms(1)] by (simp add: room_left_def)
  assume "tmp \<noteq> 0"
  then have "tmp < getFreeBytes s" using tryToWriteAStringToBuffer_strict(1) [OF assms(1)] by auto
  moreover have "getFreeBytes s1 = getFreeBytes s"
    using tryToWriteAStringToBuffer_strict(2,3) [OF assms(1)] by (simp add: getFreeBytes_def)
  ultimately show "room_left B (finishWriting tmp s1)"
    using r by (simp add: room_left_finishWriting)
qed

lemma tryToWriteArgToBuffer_strict:
  assumes "tryToWriteArgToBuffer pf fmt w p arg s = (tmp, s1)"
  shows "tmp < getFreeBytes s \<or> (tmp = 0 \<and> is_full s1)"
    and "buffer_size s1 = buffer_size s" and "writed_count s1 = writed_count s"
  using assms
  by (auto simp: tryToWriteArgToBuffer_def Let_def split: if_splits prod.splits)

lemma tryToWriteArgToBuffer_room:
  assumes "tryToWriteArgToBuffer pf fmt w p arg s = (tmp, s1)" and "room_left B s"
  shows "room_left B s1" and "room_left B (finishWriting tmp s1)"
proof -
  show r: "room_left B s1"
    using assms tryToWriteArgToBuffer_strict(2,3) [OF assms(1)] by (simp add: room_left_def)
  have g: "getFreeBytes s1 = getFreeBytes s"
    using tryToWriteArgToBuffer_strict(2,3) [OF assms(1)] by (simp add: getFreeBytes_def)
  from tryToWriteArgToBuffer_strict(1) [OF assms(1)]
  show "room_left B (finishWriting tmp s1)"
  proof
    assume "tmp < getFreeBytes s"
    then show ?thesis using r g by (simp add: room_left_finishWriting)
  next
    assume "tmp = 0 \<and> is_full s1"
    then show ?thesis using r by (simp add: room_left_finishWriting_0)
  qed
qed

lemma flow_holds_then_do:
  assumes "flow_holds P r" and "\<And>s. P s \<Longrightarrow> flow_holds P (f s)"
  shows "flow_holds P (then_do r f)"
  using assms by (cases r) (simp_all add: then_do_def flow_holds_def)

lemma room_left_write_timestamp:
  assumes "room_left B s"
  shows "flow_holds (room_left B) (write_timestamp s)"
proof (cases "tryToWriteAStringToBuffer (timestamp_str s) (length (timestamp_str s) - 1) s")
  case (Inl e)
  then show ?thesis by (simp add: write_timestamp_def flow_holds_def assms)
next
  case (Inr r)
  obtain tmp s1 where r: "r = (tmp, s1)" by (cases r)
  from tryToWriteAStringToBuffer_room [OF Inr [unfolded r] assms]
  have "room_left B s1" "tmp \<noteq> 0 \<Longrightarrow> room_left B (finishWriting tmp s1)" by simp_all
  then show ?thesis using Inr r assms
    by (simp add: write_timestamp_def flow_holds_def room_left_def)
qed

lemma room_left_write_filename_and_linenum:
  assumes "room_left B s"
  shows "flow_holds (room_left B) (write_filename_and_linenum s)"
proof (cases "tryToWriteAStringToBuffer (filename_and_linenum s) (length (filename_and_linenum s)) s")
  case (Inl e)
  then show ?thesis by (simp add: write_filename_and_linenum_def flow_holds_def assms)
next
  case (Inr r)
  obtain tmp s1 where r: "r = (tmp, s1)" by (cases r)
  from tryToWriteAStringToBuffer_room [OF Inr [unfolded r] assms]
  have "room_left B s1" "tmp \<noteq> 0 \<Longrightarrow> room_left B (finishWriting tmp s1)" by simp_all
  then show ?thesis using Inr r assms
    by (simp add: write_filename_and_linenum_def flow_holds_def room_left_def)
qed

lemma room_left_write_severity:
  assumes "room_left B s"
  shows "flow_holds (room_left B) (write_severity info s)"
proof (cases "is_severity_writed s")
  case True
  then show ?thesis by (simp add: write_severity_def flow_holds_def assms)
next
  case False
  show ?thesis
  proof (cases "nth_checked severity_str (unat (log_level info))")
    case None
    then show ?thesis using False by (simp add: write_severity_def flow_holds_def)
  next
    case (Some str)
    show ?thesis
    proof (cases "tryToWriteAStringToBuffer str (length str) s")
      case (Inl e)
      then show ?thesis using False Some by (simp add: write_severity_def flow_holds_def)
    next
      case (Inr r)
      obtain tmp s1 where r: "r = (tmp, s1)" by (cases r)
      from tryToWriteAStringToBuffer_room [OF Inr [unfolded r] assms]
      have "room_left B s1" "tmp \<noteq> 0 \<Longrightarrow> room_left B (finishWriting tmp s1)" by simp_all
      then show ?thesis using Inr r False Some
        by (simp add: write_severity_def flow_holds_def room_left_def)
    qed
  qed
qed

lemma room_left_write_producer_id:
  assumes "room_left B s"
  shows "flow_holds (room_left B) (write_producer_id s)"
proof (cases "tryToWriteAStringToBuffer (producer_id s) (length (producer_id s)) s")
  case (Inl e)
  then show ?thesis by (simp add: write_producer_id_def flow_holds_def assms)
next
  case (Inr r)
  obtain tmp s1 where r: "r = (tmp, s1)" by (cases r)
  from tryToWriteAStringToBuffer_room [OF Inr [unfolded r] assms]
  have "room_left B s1" "tmp \<noteq> 0 \<Longrightarrow> room_left B (finishWriting tmp s1)" by simp_all
  then show ?thesis using Inr r assms
    by (simp add: write_producer_id_def flow_holds_def room_left_def)
qed

lemma room_left_write_end_of_log:
  assumes "room_left B s"
  shows "flow_holds (room_left B) (write_end_of_log s)"
proof (cases "tryToWriteAStringToBuffer (end_of_log s) (length (end_of_log s)) s")
  case (Inl e)
  then show ?thesis by (simp add: write_end_of_log_def flow_holds_def assms)
next
  case (Inr r)
  obtain tmp s1 where r: "r = (tmp, s1)" by (cases r)
  from tryToWriteAStringToBuffer_room [OF Inr [unfolded r] assms]
  have "room_left B s1" "tmp \<noteq> 0 \<Longrightarrow> room_left B (finishWriting tmp s1)" by simp_all
  then show ?thesis using Inr r assms
    by (simp add: write_end_of_log_def flow_holds_def room_left_def)
qed

lemma room_left_literal_run:
  assumes "room_left B s"
  shows "flow_holds (room_left B) (literal_run info len s)"
proof (cases "tryToWriteAStringToBuffer (drop (format_index s) (format_str info)) len s")
  case (Inl e)
  then show ?thesis by (simp add: literal_run_def flow_holds_def)
next
  case (Inr r)
  obtain tmp s1 where r: "r = (tmp, s1)" by (cases r)
  from tryToWriteAStringToBuffer_room [OF Inr [unfolded r] assms]
  have "room_left B s1" "tmp \<noteq> 0 \<Longrightarrow> room_left B (finishWriting tmp s1)" by simp_all
  then show ?thesis using Inr r
    by (simp add: literal_run_def flow_holds_def room_left_def)
qed

lemma room_left_read_dynamic:
  assumes "read_dynamic kind info mem s = Inr (v, s1)" and "room_left B s"
  shows "room_left B s1"
  using assms
  by (auto simp: read_dynamic_def room_left_def split: option.splits if_splits sum.splits)

lemma room_left_expand_specifier:
  assumes "expand_specifier pf info mem fragment w p s = Inr (tmp, arg_size, s1)"
    and "room_left B s"
  shows "room_left B (finishWriting tmp s1)" and "room_left B s1"
proof -
  consider "s1 = s" "tmp = 0" |
    arg s0 rp where "tryToWriteArgToBuffer pf (c_str (conversion_storage info) (storage_pos fragment)) w p arg s = (tmp, s0)"
      "s1 = s0\<lparr>args_read_pos := rp\<rparr>"
    using assms(1)
    by (auto simp: expand_specifier_def Let_def split: option.splits sum.splits prod.splits)
  then show "room_left B (finishWriting tmp s1)"
  proof cases
    case 1
    then show ?thesis using assms(2) by (simp add: room_left_finishWriting_0)
  next
    case 2
    from tryToWriteArgToBuffer_room(2) [OF 2(1) assms(2)] 2(2)
    show ?thesis by (simp add: room_left_def finishWriting_def)
  qed
  show "room_left B s1"
    using assms
    by (auto simp: expand_specifier_def Let_def room_left_def
        split: option.splits sum.splits prod.splits dest: tryToWriteArgToBuffer_strict(2,3))
qed

lemma room_left_specifier_branch:
  assumes "room_left B s"
  shows "flow_holds (room_left B) (specifier_branch pf info mem fragment s)"
proof (cases "read_dynamic DYNAMIC_WIDTH info mem s")
  case (Inl e)
  then show ?thesis by (simp add: specifier_branch_def flow_holds_def)
next
  case (Inr r1)
  obtain w s1 where r1: "r1 = (w, s1)" by (cases r1)
  have s1: "room_left B s1" using room_left_read_dynamic [OF Inr [unfolded r1] assms] .
  show ?thesis
  proof (cases "read_dynamic DYNAMIC_PRECISION info mem s1")
    case (Inl e)
    then show ?thesis using Inr r1 by (simp add: specifier_branch_def flow_holds_def)
  next
    case Inr2: (Inr r2)
    obtain p s2 where r2: "r2 = (p, s2)" by (cases r2)
    have s2: "room_left B s2" using room_left_read_dynamic [OF Inr2 [unfolded r2] s1] .
    show ?thesis
    proof (cases "expand_specifier pf info mem fragment w p s2")
      case (Inl e)
      then show ?thesis using Inr r1 Inr2 r2 by (simp add: specifier_branch_def flow_holds_def)
    next
      case Inr3: (Inr r3)
      obtain tmp arg_size s3 where r3: "r3 = (tmp, arg_size, s3)" by (cases r3)
      from room_left_expand_specifier [OF Inr3 [unfolded r3] s2]
      have "room_left B (finishWriting tmp s3)" "room_left B s3" by simp_all
      then show ?thesis using Inr r1 Inr2 r2 Inr3 r3
        by (simp add: specifier_branch_def flow_holds_def room_left_def finishWriting_def
            split: option.splits)
    qed
  qed
qed

lemma room_left_body_iteration:
  assumes "room_left B s"
  shows "flow_holds (room_left B) (body_iteration pf info mem s)"
  using room_left_literal_run [OF assms] room_left_specifier_branch [OF assms]
  by (simp add: body_iteration_def split: option.splits) (simp add: flow_holds_def)

lemma room_left_write_body:
  "room_left B s \<Longrightarrow> flow_holds (room_left B) (write_body pf info mem s)"
proof (induction pf info mem s rule: write_body.induct)
  case (1 pf info mem s)
  show ?case
  proof (cases "format_index s < format_len info")
    case False
    then show ?thesis using "1.prems" by (subst write_body.simps) (simp add: flow_holds_def)
  next
    case True
    show ?thesis
    proof (cases "body_iteration pf info mem s")
      case (Continue s')
      with room_left_body_iteration [OF "1.prems", of pf info mem]
      have "room_left B s'" by (simp add: flow_holds_def)
      from "1.IH" [OF True Continue this] True Continue
      show ?thesis by (subst write_body.simps) simp
    next
      case (Return s')
      with room_left_body_iteration [OF "1.prems", of pf info mem] True
      show ?thesis by (subst write_body.simps) (simp add: flow_holds_def)
    next
      case (Fault e)
      with True show ?thesis by (subst write_body.simps) (simp add: flow_holds_def)
    qed
  qed
qed

lemma room_left_assembler_write:
  assumes "room_left B s" and "assembler_write pf s = Inr (k, s')"
  shows "room_left B s'"
proof (cases "is_full s")
  case True
  then show ?thesis using assms by (simp add: assembler_write_def)
next
  case False
  then obtain info dyn where i: "static_log_info s = Some info" "dynamic_log_info s = Some dyn"
    using assms(2) by (auto simp: assembler_write_def split: option.splits)
  let ?r = "then_do (then_do (write_prefix info (s\<lparr>bytes_last_writed := 0\<rparr>))
                   (write_body pf info (arg_data dyn)))
                   write_end_of_log"
  have "room_left B (s\<lparr>bytes_last_writed := 0\<rparr>)" using assms(1) by (simp add: room_left_def)
  then have "flow_holds (room_left B) ?r"
    unfolding write_prefix_def
    by (intro flow_holds_then_do room_left_write_timestamp room_left_write_filename_and_linenum
        room_left_write_severity room_left_write_producer_id room_left_write_body
        room_left_write_end_of_log)
  moreover have "?r = Continue s' \<or> ?r = Return s'"
    using assms(2) False i by (simp add: assembler_write_def split: flow.splits)
  ultimately show ?thesis by (auto simp: flow_holds_def)
qed


text \<open>
  C10. A sub-write succeeds only when its byte count is strictly less than
  \<open>getFreeBytes\<close>: a string of exactly \<open>getFreeBytes\<close> bytes is rejected and sets the
  full flag, and so is an argument whose rendering is not shorter than that. So a
  \<open>write\<close> that starts with \<open>writed_count < buffer_size\<close>, as \<open>setBuffer\<close> with a
  positive size leaves the assembler, ends with \<open>writed_count < buffer_size\<close> on the
  same region: the count of written bytes never reaches the size of the region.
\<close>

theorem assembler_never_fills_buffer:
  "(case tryToWriteAStringToBuffer src len s of
      Inr (tmp, s1) \<Rightarrow> tmp = 0 \<or> (tmp = len \<and> len < getFreeBytes s)
    | Inl e \<Rightarrow> True) \<and>
   tryToWriteAStringToBuffer src (getFreeBytes s) (s\<lparr>is_full := False\<rparr>) =
     Inr (0, s\<lparr>is_full := True\<rparr>) \<and>
   (fst (tryToWriteArgToBuffer pf fmt w p arg s) < getFreeBytes s \<or>
    fst (tryToWriteArgToBuffer pf fmt w p arg s) = 0 \<and>
    is_full (snd (tryToWriteArgToBuffer pf fmt w p arg s))) \<and>
   writed_count (setBuffer region (Suc n) s) < buffer_size (setBuffer region (Suc n) s) \<and>
   (writed_count s < buffer_size s \<longrightarrow> assembler_write pf s = Inr (k, s') \<longrightarrow>
      writed_count s' < buffer_size s' \<and> buffer_size s' = buffer_size s)"
proof (intro conjI impI)
  show "case tryToWriteAStringToBuffer src len s of
      Inr (tmp, s1) \<Rightarrow> tmp = 0 \<or> (tmp = len \<and> len < getFreeBytes s)
    | Inl e \<Rightarrow> True"
    using tryToWriteAStringToBuffer_strict(1) [of src len s]
    by (auto split: sum.splits)
  show "tryToWriteAStringToBuffer src (getFreeBytes s) (s\<lparr>is_full := False\<rparr>) =
     Inr (0, s\<lparr>is_full := True\<rparr>)"
    by (simp add: tryToWriteAStringToBuffer_def getFreeBytes_def)
  show "fst (tryToWriteArgToBuffer pf fmt w p arg s) < getFreeBytes s \<or>
    fst (tryToWriteArgToBuffer pf fmt w p arg s) = 0 \<and>
    is_full (snd (tryToWriteArgToBuffer pf fmt w p arg s))"
    using tryToWriteArgToBuffer_strict(1)
      [of pf fmt w p arg s "fst (tryToWriteArgToBuffer pf fmt w p arg s)"
          "snd (tryToWriteArgToBuffer pf fmt w p arg s)"]
    by simp
  show "writed_count (setBuffer region (Suc n) s) < buffer_size (setBuffer region (Suc n) s)"
    by (simp add: setBuffer_def)
next
  assume a: "writed_count s < buffer_size s" and b: "assembler_write pf s = Inr (k, s')"
  from a have "room_left (buffer_size s) s" by (simp add: room_left_def)
  from room_left_assembler_write [OF this b]
  show "writed_count s' < buffer_size s'" "buffer_size s' = buffer_size s"
    by (simp_all add: room_left_def)
qed

theorem assembler_never_fills_buffer_witness:
  "\<exists>s'. assembler_write printf_ref (fresh_assembler c2_render 80 c2_info c2_record) = Inr (61, s') \<and>
     writed_count (fresh_assembler c2_render 80 c2_info c2_record) <
       buffer_size (fresh_assembler c2_render 80 c2_info c2_record) \<and>
     writed_count s' < buffer_size s' \<and> buffer_size s' = 80"
proof -
  let ?s = "fresh_assembler c2_render 80 c2_info c2_record"
  from c2_run obtain s' where x: "assembler_write printf_ref ?s = Inr (61, s') \<and>
     assembled s' = c2_output \<and> buffer_size s' = 80 \<and> \<not> is_full s' \<and> \<not> hasRemainingData s'" ..
  then have r: "assembler_write printf_ref ?s = Inr (61, s')" and b: "buffer_size s' = 80"
    by (simp_all only: simp_thms)
  have h: "writed_count ?s < buffer_size ?s"
    by (simp add: c2_start)
  from assembler_never_fills_buffer [where s = ?s and pf = printf_ref and k = 61 and s' = s'] h r
  have "writed_count s' < buffer_size s'" by blast
  with r h b show ?thesis by (intro exI [of _ s']) (simp only: simp_thms)
qed

section \<open>Results: rollback and atomicity in write\<close>

lemma tryToWriteAStringToBuffer_zero:
  assumes "tryToWriteAStringToBuffer src len s = Inr (0, s1)"
  shows "s1 = s\<lparr>is_full := True\<rparr> \<or> (len = 0 \<and> s1 = s\<lparr>buffer := mem_write (buffer s) (write_pos s) []\<rparr>)"
  using assms by (auto simp: tryToWriteAStringToBuffer_def split: if_splits)

lemma mem_write_nothing: "mem_write mem pos [] = mem"
  by (simp add: mem_write_def)

lemma tryToWriteAStringToBuffer_rejects:
  assumes "getFreeBytes s \<le> len"
  shows "tryToWriteAStringToBuffer src len s = Inr (0, s\<lparr>is_full := True\<rparr>)"
  using assms by (simp add: tryToWriteAStringToBuffer_def)

lemma phase_returns:
  "write_timestamp s = Return s' \<Longrightarrow> s' = s\<lparr>is_full := True\<rparr> \<or> s' = s"
  "write_filename_and_linenum s = Return s' \<Longrightarrow> s' = s\<lparr>is_full := True\<rparr> \<or> s' = s"
  "write_severity info s = Return s' \<Longrightarrow> s' = s\<lparr>is_full := True\<rparr> \<or> s' = s"
  "write_producer_id s = Return s' \<Longrightarrow> s' = s\<lparr>is_full := True\<rparr> \<or> s' = s"
  "write_end_of_log s = Return s' \<Longrightarrow> s' = s\<lparr>is_full := True\<rparr> \<or> s' = s"
  "literal_run info len s = Return s' \<Longrightarrow> s' = s\<lparr>is_full := True\<rparr> \<or> s' = s"
  by (auto simp: write_timestamp_def write_filename_and_linenum_def write_severity_def
      write_producer_id_def write_end_of_log_def literal_run_def mem_write_nothing
      split: if_splits sum.splits option.splits dest!: tryToWriteAStringToBuffer_zero)

lemma phase_rejects:
  "\<not> is_timestamp_writed s \<Longrightarrow> getFreeBytes s \<le> length (timestamp_str s) - 1 \<Longrightarrow>
     write_timestamp s = Return (s\<lparr>is_full := True\<rparr>)"
  "\<not> is_filename_and_linenum_writed s \<Longrightarrow> getFreeBytes s \<le> length (filename_and_linenum s) \<Longrightarrow>
     write_filename_and_linenum s = Return (s\<lparr>is_full := True\<rparr>)"
  "\<not> is_severity_writed s \<Longrightarrow> nth_checked severity_str (unat (log_level info)) = Some str \<Longrightarrow>
     getFreeBytes s \<le> length str \<Longrightarrow> write_severity info s = Return (s\<lparr>is_full := True\<rparr>)"
  "\<not> is_producer_id_writed s \<Longrightarrow> getFreeBytes s \<le> length (producer_id s) \<Longrightarrow>
     write_producer_id s = Return (s\<lparr>is_full := True\<rparr>)"
  "getFreeBytes s \<le> len \<Longrightarrow> literal_run info len s = Return (s\<lparr>is_full := True\<rparr>)"
  by (simp_all add: write_timestamp_def write_filename_and_linenum_def write_severity_def
      write_producer_id_def literal_run_def tryToWriteAStringToBuffer_rejects)

lemma tryToWriteArgToBuffer_full:
  assumes "tryToWriteArgToBuffer pf fmt w p arg s = (tmp, s1)" and "is_full s1" and "\<not> is_full s"
  shows "tmp = 0"
  using assms by (auto simp: tryToWriteArgToBuffer_def Let_def split: if_splits prod.splits)

lemma read_dynamic_is_full:
  assumes "read_dynamic kind info mem s = Inr (v, s1)"
  shows "is_full s1 = is_full s" "writed_count s1 = writed_count s" "write_pos s1 = write_pos s"
    "bytes_last_writed s1 = bytes_last_writed s"
  using assms by (auto simp: read_dynamic_def split: option.splits if_splits sum.splits)

lemma expand_specifier_full:
  assumes "expand_specifier pf info mem fragment w p s = Inr (tmp, arg_size, s1)"
    and "is_full s1" and "\<not> is_full s"
  shows "tmp = 0"
proof -
  consider "s1 = s" |
    arg s0 rp where "tryToWriteArgToBuffer pf (c_str (conversion_storage info) (storage_pos fragment)) w p arg s = (tmp, s0)"
      "s1 = s0\<lparr>args_read_pos := rp\<rparr>"
    using assms(1)
    by (auto simp: expand_specifier_def Let_def split: option.splits sum.splits prod.splits)
  then show ?thesis
  proof cases
    case 1
    then show ?thesis using assms(2,3) by simp
  next
    case 2
    from tryToWriteArgToBuffer_full [OF 2(1) _ assms(3)] 2(2) assms(2) show ?thesis by simp
  qed
qed

lemma expand_specifier_counts:
  assumes "expand_specifier pf info mem fragment w p s = Inr (tmp, arg_size, s1)"
  shows "writed_count s1 = writed_count s" "write_pos s1 = write_pos s"
    "bytes_last_writed s1 = bytes_last_writed s"
  using assms
  by (auto simp: expand_specifier_def Let_def tryToWriteArgToBuffer_def
      split: option.splits sum.splits prod.splits if_splits)

lemma specifier_branch_returns:
  assumes "specifier_branch pf info mem fragment s = Return s'"
  shows "conversion_index s' = conversion_index s" "parameter_index s' = parameter_index s"
    "args_read_pos s' = args_read_pos s" "format_index s' = format_index s"
    "writed_count s' = writed_count s" "write_pos s' = write_pos s"
    "bytes_last_writed s' = bytes_last_writed s"
proof -
  from assms obtain w s1 p s2 tmp arg_size s3 where
    r1: "read_dynamic DYNAMIC_WIDTH info mem s = Inr (w, s1)"
    and r2: "read_dynamic DYNAMIC_PRECISION info mem s1 = Inr (p, s2)"
    and e: "expand_specifier pf info mem fragment w p s2 = Inr (tmp, arg_size, s3)"
    and s': "s' = s3\<lparr>conversion_index := conversion_index s,
                      parameter_index := parameter_index s,
                      args_read_pos := args_read_pos s\<rparr>"
    by (auto simp: specifier_branch_def Let_def split: sum.splits prod.splits if_splits option.splits)
  show "conversion_index s' = conversion_index s" "parameter_index s' = parameter_index s"
    "args_read_pos s' = args_read_pos s"
    using s' by simp_all
  show "format_index s' = format_index s"
    using s' read_dynamic_fields(1) [OF r1] read_dynamic_fields(1) [OF r2]
      expand_specifier_fields(1) [OF e] by simp
  show "writed_count s' = writed_count s" "write_pos s' = write_pos s"
    "bytes_last_writed s' = bytes_last_writed s"
    using s' read_dynamic_is_full(2-4) [OF r1] read_dynamic_is_full(2-4) [OF r2]
      expand_specifier_counts [OF e] by simp_all
qed

lemma specifier_branch_overflow:
  assumes "read_dynamic DYNAMIC_WIDTH info mem s = Inr (w, s1)"
    and "read_dynamic DYNAMIC_PRECISION info mem s1 = Inr (p, s2)"
    and "expand_specifier pf info mem fragment w p s2 = Inr (tmp, arg_size, s3)"
    and "\<not> is_full s" and "is_full s3" and "0 < arg_size"
  shows "specifier_branch pf info mem fragment s =
           Return (s3\<lparr>conversion_index := conversion_index s,
                      parameter_index := parameter_index s,
                      args_read_pos := args_read_pos s\<rparr>)"
proof -
  have "\<not> is_full s2"
    using assms(4) read_dynamic_is_full(1) [OF assms(1)] read_dynamic_is_full(1) [OF assms(2)]
    by simp
  from expand_specifier_full [OF assms(3,5) this] have "tmp = 0" .
  then show ?thesis using assms(1-3,6) by (simp add: specifier_branch_def)
qed

lemma specifier_branch_empty_argument:
  assumes "read_dynamic DYNAMIC_WIDTH info mem s = Inr (w, s1)"
    and "read_dynamic DYNAMIC_PRECISION info mem s1 = Inr (p, s2)"
    and "expand_specifier pf info mem fragment w p s2 = Inr (tmp, 0, s3)"
  shows "specifier_branch pf info mem fragment s \<noteq> Return r"
  using assms by (simp add: specifier_branch_def split: option.splits)

lemma phase_flags:
  "write_timestamp s = Return s' \<Longrightarrow> \<not> is_timestamp_writed s'"
  "write_filename_and_linenum s = Return s' \<Longrightarrow> \<not> is_filename_and_linenum_writed s'"
  "write_severity info s = Return s' \<Longrightarrow> \<not> is_severity_writed s'"
  "write_producer_id s = Return s' \<Longrightarrow> \<not> is_producer_id_writed s'"
  "write_end_of_log s = Return s' \<Longrightarrow> \<not> is_end_of_log_writed s'"
  by (auto simp: write_timestamp_def write_filename_and_linenum_def write_severity_def
      write_producer_id_def write_end_of_log_def mem_write_nothing
      split: if_splits sum.splits option.splits dest!: tryToWriteAStringToBuffer_zero)

text \<open>
  Once the full flag is set nothing clears it: \<open>setBuffer\<close> and \<open>loadLogInfo\<close> leave
  it as it is, and \<open>write\<close> returns 0 at once while it is set. A record interrupted by a
  full region is therefore not continued on the region installed next.
\<close>

lemma is_full_resets [simp]:
  "is_full (resetFlags s) = is_full s" "is_full (resetIndices s) = is_full s"
  "is_full (setProducerId pid s) = is_full s" "is_full (setBuffer region n s) = is_full s"
  by (simp_all add: resetFlags_def resetIndices_def setProducerId_def setBuffer_def)

lemma is_full_loadStaticInfo [simp]: "is_full (loadStaticInfo static_info s) = is_full s"
  by (cases static_info) (simp_all add: loadStaticInfo_def)

lemma is_full_loadDynamicInfo [simp]:
  "is_full (loadDynamicInfo render dynamic_info s) = is_full s"
  by (cases dynamic_info) (simp_all add: loadDynamicInfo_def Let_def split_beta)

lemma is_full_loadLogInfo:
  "is_full (loadLogInfo render static_info dynamic_info pid s) = is_full s"
  by (simp add: loadLogInfo_def)

lemma write_after_full:
  assumes "is_full s"
  shows "assembler_write pf (setBuffer region n s) = Inr (0, setBuffer region n s)"
  using assms by (simp add: assembler_write_def)

subsection \<open>Scenario: a width on an empty string\<close>

lemma flow_Continue_evalD:
  "(case r of Continue s \<Rightarrow> Some (g s) | Return s \<Rightarrow> None | Fault e \<Rightarrow> None) = Some v \<Longrightarrow>
   \<exists>s. r = Continue s \<and> g s = v"
  by (cases r) simp_all

lemma flow_Return_evalD:
  "(case r of Continue s \<Rightarrow> None | Return s \<Rightarrow> Some (g s) | Fault e \<Rightarrow> None) = Some v \<Longrightarrow>
   \<exists>s. r = Return s \<and> g s = v"
  by (cases r) simp_all

lemma write_evalD:
  "(case r of Inr (n, s) \<Rightarrow> Some (n, g s) | Inl e \<Rightarrow> None) = Some (k, v) \<Longrightarrow>
   \<exists>s. r = Inr (k, s) \<and> g s = v"
  by (cases r) (auto split: prod.splits)

lemmas c4_data = c2_info_def c2_record_def c2_render_def c2_format_def
  c4_info_def c4_record_def c4_format_def c4_start_def c4_fragment_def
  c4_record_a_def c4_start_a_def c4_next_region_def

lemma c4_analysis:
  "OLOG_analysis c4_format =
     Some (Inr (''%5s'' @ [NUL],
       [\<lparr>conversion_type = const_char_ptr_t, specifier_length = 3, format_pos = 0,
         storage_pos = 0\<rparr>],
       [STRING_WITH_NO_PRECISION]))"
  by (simp add: eval_analysis eval_chars c4_format_def)

lemma c4_call_eq: "c4_call = Some (c4_info, c4_record)"
  by (simp add: c4_call_def OLOG_def c4_analysis)
     (simp add: eval_codec eval_data c4_info_def c4_record_def c4_format_def)

lemma c4_call_a_eq: "c4_call_a = Some (c4_info, c4_record_a)"
  by (simp add: c4_call_a_def OLOG_def c4_analysis)
     (simp add: eval_codec eval_data c4_info_def c4_record_a_def c4_format_def)

lemma c4_before_fields:
  "getFreeBytes c4_before = 3" "conversion_index c4_before = 0" "parameter_index c4_before = 0"
  "args_read_pos c4_before = 0" "\<not> is_full c4_before"
  by (simp_all add: c4_before_def eval_assembler eval_data c4_data)

lemma c4_before_a_fields:
  "getFreeBytes c4_before_a = 3" "conversion_index c4_before_a = 0"
  "parameter_index c4_before_a = 0" "args_read_pos c4_before_a = 0" "\<not> is_full c4_before_a"
  by (simp_all add: c4_before_a_def eval_assembler eval_data c4_data)

lemma c4_rendering:
  "printf_ref ''%5s'' [String_arg (drop 8 (arg_data c4_record))] = Some ''     ''"
  "printf_ref ''%5s'' [String_arg (drop 8 (arg_data c4_record_a))] = Some ''    a''"
  by (simp_all add: eval_printf eval_data c4_data)

lemma c4_branch_eval:
  "(case specifier_branch printf_ref c4_info (arg_data c4_record) c4_fragment c4_before of
      Continue s \<Rightarrow>
        Some (is_full s, conversion_index s, parameter_index s, args_read_pos s)
    | Return s \<Rightarrow> None | Fault e \<Rightarrow> None) =
   Some (True, 1, 1, 9)"
  by (simp add: c4_before_def eval_assembler eval_printf eval_data c4_data)

lemma c4_run_eval:
  "(case assembler_write printf_ref c4_start of
      Inr (n, s) \<Rightarrow>
        Some (n, is_full s, conversion_index s, parameter_index s, args_read_pos s, assembled s)
    | Inl e \<Rightarrow> None) =
   Some (43, True, 1, 1, 9, ''2023-11-14 22:13:20.000 a.cc:10 [INFO][0]: '')"
  by (simp add: eval_assembler eval_printf eval_data c4_data)

lemma c4_branch_a_eval:
  "(case specifier_branch printf_ref c4_info (arg_data c4_record_a) c4_fragment c4_before_a of
      Continue s \<Rightarrow> None
    | Return s \<Rightarrow>
        Some (is_full s, conversion_index s, parameter_index s, args_read_pos s)
    | Fault e \<Rightarrow> None) =
   Some (True, 0, 0, 0)"
  by (simp add: c4_before_a_def eval_assembler eval_printf eval_data c4_data)

lemma c4_run_a_eval:
  "(case assembler_write printf_ref c4_start_a of
      Inr (n, s) \<Rightarrow>
        Some (n, is_full s, conversion_index s, parameter_index s, args_read_pos s, assembled s)
    | Inl e \<Rightarrow> None) =
   Some (43, True, 0, 0, 0, ''2023-11-14 22:13:20.000 a.cc:10 [INFO][0]: '')"
  by (simp add: eval_assembler eval_printf eval_data c4_data)

text \<open>
  Claim C4 states what the comments of \<open>write\<close> promise; the code does not keep the
  promise in two places.

  \<^item> \<open>OLOG(LogLevel::INFO, "%5s", "")\<close> is written into a region of 46 bytes. After
    the prefix 3 bytes are free; the rendering of \<open>%5s\<close> has 5 characters and exceeds
    them, so the full flag is set. The stored length of the argument is 0 and \<open>write\<close>
    restores the indices only when \<open>arg_size\<close> is positive: the conversion counts as
    written, \<open>conversion_index\<close>, \<open>parameter_index\<close> and \<open>args_read_pos\<close> have
    advanced when \<open>write\<close> returns 43, and the conversion is lost. The same call with
    the string \<open>a\<close> is rolled back as the claim says: the three members are back at 0,
    though \<open>args_read_pos\<close> had moved past the string before the check.
  \<^item> The full flag is cleared nowhere. After that rollback the consumer installs the next
    region and calls \<open>write\<close> again: it returns 0 and writes nothing, so the
    interrupted record is not resumed.
\<close>

theorem c4_rollback_skipped_and_never_resumed:
  "c4_call = Some (c4_info, c4_record) \<and> c4_call_a = Some (c4_info, c4_record_a) \<and>
   getFreeBytes c4_before = 3 \<and>
   printf_ref ''%5s'' [String_arg (drop 8 (arg_data c4_record))] = Some ''     '' \<and>
   conversion_index c4_before = 0 \<and> parameter_index c4_before = 0 \<and>
   args_read_pos c4_before = 0 \<and>
   (\<exists>s'. specifier_branch printf_ref c4_info (arg_data c4_record) c4_fragment c4_before =
            Continue s' \<and>
          is_full s' \<and> conversion_index s' = 1 \<and> parameter_index s' = 1 \<and>
          args_read_pos s' = 9) \<and>
   (\<exists>s'. assembler_write printf_ref c4_start = Inr (43, s') \<and>
          is_full s' \<and> conversion_index s' = 1 \<and> parameter_index s' = 1 \<and>
          args_read_pos s' = 9 \<and>
          assembled s' = ''2023-11-14 22:13:20.000 a.cc:10 [INFO][0]: '') \<and>
   getFreeBytes c4_before_a = 3 \<and>
   printf_ref ''%5s'' [String_arg (drop 8 (arg_data c4_record_a))] = Some ''    a'' \<and>
   (\<exists>r. specifier_branch printf_ref c4_info (arg_data c4_record_a) c4_fragment c4_before_a =
            Return r \<and>
          is_full r \<and> conversion_index r = 0 \<and> parameter_index r = 0 \<and>
          args_read_pos r = 0) \<and>
   (\<exists>r. assembler_write printf_ref c4_start_a = Inr (43, r) \<and>
          is_full r \<and> conversion_index r = 0 \<and> parameter_index r = 0 \<and>
          args_read_pos r = 0 \<and>
          assembled r = ''2023-11-14 22:13:20.000 a.cc:10 [INFO][0]: '' \<and>
          assembler_write printf_ref (setBuffer c4_next_region 80 r) =
            Inr (0, setBuffer c4_next_region 80 r) \<and>
          assembled (setBuffer c4_next_region 80 r) = [])"
proof -
  from flow_Continue_evalD [OF c4_branch_eval] have 1:
    "\<exists>s'. specifier_branch printf_ref c4_info (arg_data c4_record) c4_fragment c4_before =
            Continue s' \<and>
          is_full s' \<and> conversion_index s' = 1 \<and> parameter_index s' = 1 \<and>
          args_read_pos s' = 9"
    by (simp only: prod.inject simp_thms)
  from write_evalD [OF c4_run_eval] have 2:
    "\<exists>s'. assembler_write printf_ref c4_start = Inr (43, s') \<and>
          is_full s' \<and> conversion_index s' = 1 \<and> parameter_index s' = 1 \<and>
          args_read_pos s' = 9 \<and>
          assembled s' = ''2023-11-14 22:13:20.000 a.cc:10 [INFO][0]: ''"
    by (simp only: prod.inject simp_thms)
  from flow_Return_evalD [OF c4_branch_a_eval] have 3:
    "\<exists>r. specifier_branch printf_ref c4_info (arg_data c4_record_a) c4_fragment c4_before_a =
            Return r \<and>
          is_full r \<and> conversion_index r = 0 \<and> parameter_index r = 0 \<and>
          args_read_pos r = 0"
    by (simp only: prod.inject simp_thms)
  from write_evalD [OF c4_run_a_eval] obtain r where r:
    "assembler_write printf_ref c4_start_a = Inr (43, r)"
    "is_full r" "conversion_index r = 0" "parameter_index r = 0" "args_read_pos r = 0"
    "assembled r = ''2023-11-14 22:13:20.000 a.cc:10 [INFO][0]: ''"
    by (auto simp only: prod.inject simp_thms)
  have "assembled (setBuffer c4_next_region 80 r) = []"
    by (simp add: assembled_def setBuffer_def)
  with r write_after_full [OF r(2), of printf_ref c4_next_region 80] have 4:
    "\<exists>r. assembler_write printf_ref c4_start_a = Inr (43, r) \<and>
          is_full r \<and> conversion_index r = 0 \<and> parameter_index r = 0 \<and>
          args_read_pos r = 0 \<and>
          assembled r = ''2023-11-14 22:13:20.000 a.cc:10 [INFO][0]: '' \<and>
          assembler_write printf_ref (setBuffer c4_next_region 80 r) =
            Inr (0, setBuffer c4_next_region 80 r) \<and>
          assembled (setBuffer c4_next_region 80 r) = []"
    by blast
  from c4_call_eq c4_call_a_eq c4_before_fields(1-4) c4_rendering c4_before_a_fields(1) 1 2 3 4
  show ?thesis
    by (intro conjI)
qed

section \<open>Results: the line of scenario 1\<close>

lemma nat_numeral_plus_int: "nat (numeral k + int m) = numeral k + m"
  by (simp add: nat_add_distrib)

text \<open>
  The line the assembler writes for the record of scenario 1, for every date text of 20
  characters, every formatter that renders \<open>%d\<close> of 42 as \<open>42\<close> and every region of at
  least 62 bytes.
\<close>

lemma c2_general_eval:
  assumes "length (render 1700000000) = 20" and "pf ''%d'' [Int_arg 42] = Some ''42''"
    and "m < 18446744073709551554"
  shows
    "(case assembler_write pf (fresh_assembler render (62 + m) c2_info c2_record) of
        Inr (n, s) \<Rightarrow> Some (n, assembled s)
      | Inl e \<Rightarrow> None) =
     Some (61, render 1700000000 @ ''000 a.cc:10 [INFO][0]: Hello 42 World'' @
               [CHR 0x0A, NUL, CHR 0x0D, CHR 0x0A])"
  using assms
  by (simp add: eval_assembler eval_data c2_info_def c2_record_def c2_format_def replicate_add
      list_update_append)
     (simp add: nat_numeral_plus_int)

lemma c2_general:
  assumes "length (render 1700000000) = 20" and "pf ''%d'' [Int_arg 42] = Some ''42''"
    and "62 \<le> n" and "n < 2 ^ 64"
  shows "\<exists>s. assembler_write pf (fresh_assembler render n c2_info c2_record) = Inr (61, s) \<and>
    assembled s = render 1700000000 @ ''000 a.cc:10 [INFO][0]: Hello 42 World'' @
                  [CHR 0x0A, NUL, CHR 0x0D, CHR 0x0A]"
proof -
  from assms(3) obtain m where n: "n = 62 + m"
    using le_Suc_ex by blast
  with assms(4) have "m < 18446744073709551554" by simp
  from write_evalD [where g = assembled, OF c2_general_eval [where render = render and pf = pf, OF assms(1,2) this]] n
  show ?thesis by simp
qed

text \<open>
  Claim C2, as the specification states it, fails: between \<open>Hello 42 World\<close> and the
  line terminator the output has the newline of the format string (and the NUL that ends
  the format array), so \<open>Hello 42 World\<close> is not followed immediately by \<open>\r\n\<close>.
\<close>

theorem c2_world_not_followed_by_terminator:
  "c2_call = Some (c2_info, c2_record) \<and>
   (\<exists>s. assembler_write printf_ref (fresh_assembler c2_render 80 c2_info c2_record) =
          Inr (61, s) \<and>
        assembled s = ''2023-11-14 22:13:20.000 a.cc:10 [INFO][0]: Hello 42 World'' @
                      [CHR 0x0A, NUL, CHR 0x0D, CHR 0x0A] \<and>
        \<not> sublist (''a.cc:10 [INFO][0]: Hello 42 World'' @ [CHR 0x0D, CHR 0x0A])
            (assembled s))"
proof -
  have n: "\<not> sublist (''a.cc:10 [INFO][0]: Hello 42 World'' @ [CHR 0x0D, CHR 0x0A]) c2_output"
    by (simp add: c2_output_def sublist_Cons_right)
  from c2_run obtain s where
    w: "assembler_write printf_ref (fresh_assembler c2_render 80 c2_info c2_record) = Inr (61, s)"
    and a: "assembled s = c2_output"
    by blast
  from n a have "\<not> sublist (''a.cc:10 [INFO][0]: Hello 42 World'' @ [CHR 0x0D, CHR 0x0A])
      (assembled s)"
    by (simp only: simp_thms)
  moreover from a have "assembled s = ''2023-11-14 22:13:20.000 a.cc:10 [INFO][0]: Hello 42 World'' @
      [CHR 0x0A, NUL, CHR 0x0D, CHR 0x0A]"
    by (simp only: c2_output_def)
  ultimately show ?thesis
    using c2_call_eq w by (intro conjI exI [of _ s])
qed

text \<open>
  Claim C2, amended. For the record of \<open>OLOG(LogLevel::INFO, "Hello %d World\n", 42)\<close>
  at line 10 of \<open>a.cc\<close>, producer 0, millisecond 1700000000000: with a date text of 20
  characters, a formatter that renders \<open>%d\<close> of 42 as \<open>42\<close> and a region of at least
  62 bytes, \<open>write\<close> succeeds and its output begins with the date text, the milliseconds
  \<open>000\<close> and a space, contains \<open>a.cc:10 [INFO][0]: Hello 42 World\<close> followed
  immediately by the newline of the format string, and ends with the line terminator
  \<open>\r\n\<close>.
\<close>

theorem c2_line_assembled:
  assumes "length (render 1700000000) = 20" and "pf ''%d'' [Int_arg 42] = Some ''42''"
    and "62 \<le> n" and "n < 2 ^ 64"
  shows "\<exists>info dyn k s. c2_call = Some (info, dyn) \<and>
    assembler_write pf (fresh_assembler render n info dyn) = Inr (k, s) \<and>
    prefix (render 1700000000 @ ''000 '') (assembled s) \<and>
    sublist (''a.cc:10 [INFO][0]: Hello 42 World'' @ [CHR 0x0A]) (assembled s) \<and>
    suffix [CHR 0x0D, CHR 0x0A] (assembled s)"
proof -
  let ?d = "render 1700000000"
  from c2_general [where render = render and pf = pf, OF assms] obtain s where
    w: "assembler_write pf (fresh_assembler render n c2_info c2_record) = Inr (61, s)"
    and a: "assembled s = ?d @ ''000 a.cc:10 [INFO][0]: Hello 42 World'' @
                  [CHR 0x0A, NUL, CHR 0x0D, CHR 0x0A]"
    by blast
  have "assembled s = (?d @ ''000 '') @ ''a.cc:10 [INFO][0]: Hello 42 World'' @
          [CHR 0x0A, NUL, CHR 0x0D, CHR 0x0A]"
    by (simp add: a)
  then have p: "prefix (?d @ ''000 '') (assembled s)"
    by (rule prefixI)
  have "assembled s = (?d @ ''000 '') @ (''a.cc:10 [INFO][0]: Hello 42 World'' @ [CHR 0x0A]) @
          [NUL, CHR 0x0D, CHR 0x0A]"
    by (simp add: a)
  then have i: "sublist (''a.cc:10 [INFO][0]: Hello 42 World'' @ [CHR 0x0A]) (assembled s)"
    by (simp only: sublist_appendI)
  have "assembled s = (?d @ ''000 a.cc:10 [INFO][0]: Hello 42 World'' @ [CHR 0x0A, NUL]) @
          [CHR 0x0D, CHR 0x0A]"
    by (simp add: a)
  then have "suffix [CHR 0x0D, CHR 0x0A] (assembled s)"
    by (rule suffixI)
  with c2_call_eq w p i show ?thesis by blast
qed

theorem c2_line_assembled_witness:
  "length (c2_render 1700000000) = 20 \<and> printf_ref ''%d'' [Int_arg 42] = Some ''42'' \<and>
   (62::nat) \<le> 80 \<and> (80::nat) < 2 ^ 64 \<and>
   (\<exists>info dyn k s. c2_call = Some (info, dyn) \<and>
      assembler_write printf_ref (fresh_assembler c2_render 80 info dyn) = Inr (k, s) \<and>
      prefix (c2_render 1700000000 @ ''000 '') (assembled s) \<and>
      sublist (''a.cc:10 [INFO][0]: Hello 42 World'' @ [CHR 0x0A]) (assembled s) \<and>
      suffix [CHR 0x0D, CHR 0x0A] (assembled s))"
proof -
  have h: "length (c2_render 1700000000) = 20" "printf_ref ''%d'' [Int_arg 42] = Some ''42''"
    "(62::nat) \<le> 80" "(80::nat) < 2 ^ 64"
    by (simp_all add: c2_render_def eval_printf)
  from c2_line_assembled [where render = c2_render and pf = printf_ref and n = 80, OF h] h
  show ?thesis
    by (simp only: simp_thms)
qed

section \<open>Results: the encoding of a string argument\<close>

lemma length_le_encode: "length (le_encode n v) = n"
  by (induction n arbitrary: v) simp_all

text \<open>
  A string argument (a parameter type above \<open>NON_STRING\<close>) is stored as its length in a
  \<open>size_t\<close>, that many characters of the string, and a NUL that the length does not count.
  The length is the string's, cut down to the precision of the format (\<open>STRING\<close> and
  above) or to the dynamic precision that precedes it.
\<close>

lemma string_argument_encoding:
  assumes "NON_STRING < pt" and "GetArgSize pt ss pre (Char_ptr a str) = (sz, n, pre')"
  shows "n = (if STRING \<le> pt \<and> to_size_t pt < length str then to_size_t pt
              else if pt = STRING_WITH_DYNAMIC_PRECISION \<and> pre < length str then pre
              else length str)"
    and "n \<le> length str" and "sz = n + 8 + 1"
    and "StoreArgument pt n (Char_ptr a str) = le_encode 8 (int n) @ take n str @ [NUL]"
    and "length (StoreArgument pt n (Char_ptr a str)) = sz"
proof -
  from assms show n: "n = (if STRING \<le> pt \<and> to_size_t pt < length str then to_size_t pt
              else if pt = STRING_WITH_DYNAMIC_PRECISION \<and> pre < length str then pre
              else length str)"
    and sz: "sz = n + 8 + 1"
    by (auto simp: GetArgSize_def Let_def split: if_splits)
  from n show le: "n \<le> length str" by (simp split: if_splits)
  from assms(1) le show st: "StoreArgument pt n (Char_ptr a str) =
      le_encode 8 (int n) @ take n str @ [NUL]"
    by (simp add: StoreArgument_def)
  from le show "length (StoreArgument pt n (Char_ptr a str)) = sz"
    by (simp add: st sz length_le_encode)
qed

lemma c7_analysis:
  "OLOG_analysis c7_format =
     Some (Inr (''%.*s'' @ [NUL],
       [\<lparr>conversion_type = const_char_ptr_t, specifier_length = 4, format_pos = 4,
         storage_pos = 0\<rparr>],
       [DYNAMIC_PRECISION, STRING_WITH_DYNAMIC_PRECISION]))"
  by (simp add: eval_analysis eval_chars c7_format_def)

lemma c7_call_eq: "c7_call = Some (c7_info, c7_record)"
  by (simp add: c7_call_def OLOG_def c7_analysis)
     (simp add: eval_codec eval_data c7_info_def c7_record_def c7_format_def)

lemma c7_run_eval:
  "(case assembler_write printf_ref (fresh_assembler c2_render 80 c7_info c7_record) of
      Inr (n, s) \<Rightarrow> Some (n, assembled s)
    | Inl e \<Rightarrow> None) =
   Some (54, ''2023-11-14 22:13:20.000 a.cc:10 [INFO][0]: val=abc|'' @ [NUL, CHR 0x0D, CHR 0x0A])"
  by (simp add: eval_assembler eval_printf eval_data c7_info_def c7_record_def c2_render_def
      c7_format_def)

text \<open>
  Claim C7 on its example. The record of \<open>OLOG(LogLevel::INFO, "val=%.*s|", 3, "abcdef")\<close>
  holds the precision 3 in four bytes and then the string segment the claim gives: the
  length 3 in eight bytes, \<open>abc\<close> and a NUL. The body that \<open>write\<close> assembles from it is
  not \<open>val=abc|\<close>: \<open>format_len\<close> is the size of the format array, which counts the
  terminating NUL, and the last literal run copies that NUL into the line, between the
  body and the line terminator.
\<close>

theorem c7_body_carries_the_terminating_nul:
  "c7_call = Some (c7_info, c7_record) \<and>
   arg_data c7_record = le_encode 4 3 @ le_encode 8 3 @ ''abc'' @ [NUL] \<and>
   format_len c7_info = length ''val=%.*s|'' + 1 \<and>
   (\<exists>s. assembler_write printf_ref (fresh_assembler c2_render 80 c7_info c7_record) =
          Inr (54, s) \<and>
        assembled s = ''2023-11-14 22:13:20.000 a.cc:10 [INFO][0]: '' @ ''val=abc|'' @ [NUL] @
                      [CHR 0x0D, CHR 0x0A])"
proof -
  have 1: "arg_data c7_record = le_encode 4 3 @ le_encode 8 3 @ ''abc'' @ [NUL]"
    by (simp add: c7_record_def eval_data)
  have 2: "format_len c7_info = length ''val=%.*s|'' + 1"
    by (simp add: c7_info_def)
  from write_evalD [where g = assembled, OF c7_run_eval] have 3:
    "\<exists>s. assembler_write printf_ref (fresh_assembler c2_render 80 c7_info c7_record) =
          Inr (54, s) \<and>
        assembled s = ''2023-11-14 22:13:20.000 a.cc:10 [INFO][0]: '' @ ''val=abc|'' @ [NUL] @
                      [CHR 0x0D, CHR 0x0A]"
    by simp
  from c7_call_eq 1 2 3 show ?thesis
    by (intro conjI)
qed

section \<open>Results: the escape\<close>

text \<open>
  The analysis walks over \<open>%%\<close> without a parameter and without a conversion: in front of
  any text, and behind any text without a \<open>%\<close>, the escape changes neither
  \<open>GetParamInfo\<close> nor \<open>FormatParametersCount\<close> nor \<open>ConversionSpecifiersCount\<close>.
\<close>

lemma GetParamInfo_from_literal:
  "CHR ''%'' \<notin> set pre \<Longrightarrow> GetParamInfo_from (pre @ rest) n = GetParamInfo_from rest n"
  by (induction pre) auto

lemma ConversionSpecifiersCount_from_literal:
  "CHR ''%'' \<notin> set pre \<Longrightarrow>
   ConversionSpecifiersCount_from (pre @ rest) n = ConversionSpecifiersCount_from rest n"
  by (induction pre) auto

lemma escape_skipped:
  assumes "CHR ''%'' \<notin> set pre"
  shows "GetParamInfo (pre @ ''%%'' @ rest) n = GetParamInfo (pre @ rest) n"
    and "FormatParametersCount (pre @ ''%%'' @ rest) = FormatParametersCount (pre @ rest)"
    and "ConversionSpecifiersCount (pre @ ''%%'' @ rest) = ConversionSpecifiersCount (pre @ rest)"
proof -
  show g: "GetParamInfo (pre @ ''%%'' @ rest) n = GetParamInfo (pre @ rest) n" for n
    using assms by (simp add: GetParamInfo_def GetParamInfo_from_literal)
  then have "GetParamInfo (pre @ ''%%'' @ rest) = GetParamInfo (pre @ rest)"
    by (intro ext)
  then show "FormatParametersCount (pre @ ''%%'' @ rest) = FormatParametersCount (pre @ rest)"
    by (simp only: FormatParametersCount_def)
  show "ConversionSpecifiersCount (pre @ ''%%'' @ rest) = ConversionSpecifiersCount (pre @ rest)"
    using assms by (simp add: ConversionSpecifiersCount_def ConversionSpecifiersCount_from_literal)
qed

lemma c3_analysis: "OLOG_analysis c3_format = Some (Inr ([], [], []))"
  by (simp add: eval_analysis eval_chars c3_format_def)

lemma c3_call_eq: "c3_call = Some (c3_info, c3_record)"
  by (simp add: c3_call_def OLOG_def c3_analysis)
     (simp add: eval_codec eval_data c3_info_def c3_record_def c3_format_def)

lemma c3_run_eval:
  "(case assembler_write printf_ref (fresh_assembler c2_render 80 c3_info c3_record) of
      Inr (n, s) \<Rightarrow> Some (n, assembled s)
    | Inl e \<Rightarrow> None) =
   Some (51, ''2023-11-14 22:13:20.000 a.cc:10 [INFO][0]: 100%%'' @ [NUL, CHR 0x0D, CHR 0x0A])"
  by (simp add: eval_assembler eval_printf eval_data c3_info_def c3_record_def c2_render_def
      c3_format_def)

text \<open>
  Claim C3 on \<open>OLOG(LogLevel::INFO, "100%%")\<close>. The analysis treats \<open>%%\<close> as the claim
  says: the call has no parameter, no conversion and no argument bytes. The body that
  \<open>write\<close> assembles does not: a literal run is a copy of the characters of the format
  string, and the escape arrives in the line as the two characters \<open>%%\<close>.
\<close>

theorem c3_escape_emitted_as_two_characters:
  "c3_call = Some (c3_info, c3_record) \<and>
   num_parameters c3_info = 0 \<and> num_conversions c3_info = 0 \<and> arg_data c3_record = [] \<and>
   (\<exists>s. assembler_write printf_ref (fresh_assembler c2_render 80 c3_info c3_record) =
          Inr (51, s) \<and>
        assembled s = ''2023-11-14 22:13:20.000 a.cc:10 [INFO][0]: '' @ ''100%%'' @
                      [NUL, CHR 0x0D, CHR 0x0A] \<and>
        count_list (assembled s) CHR ''%'' = 2)"
proof -
  have 1: "num_parameters c3_info = 0" "num_conversions c3_info = 0" "arg_data c3_record = []"
    by (simp_all add: c3_info_def c3_record_def)
  from write_evalD [where g = assembled, OF c3_run_eval] obtain s where
    w: "assembler_write printf_ref (fresh_assembler c2_render 80 c3_info c3_record) = Inr (51, s)"
    and a: "assembled s = ''2023-11-14 22:13:20.000 a.cc:10 [INFO][0]: 100%%'' @
                          [NUL, CHR 0x0D, CHR 0x0A]"
    by blast
  have b: "assembled s = ''2023-11-14 22:13:20.000 a.cc:10 [INFO][0]: '' @ ''100%%'' @
                      [NUL, CHR 0x0D, CHR 0x0A]"
    by (simp add: a)
  have c: "count_list (assembled s) CHR ''%'' = 2"
    by (simp add: a)
  from c3_call_eq 1 w b c show ?thesis
    by (intro conjI exI [of _ s])
qed

section \<open>Results: the conversion storage\<close>

lemma char_run_nth:
  "char_run P xs n =
     (if n < length (takeWhile P xs) then Char_is (takeWhile P xs ! n)
      else Char_next (dropWhile P xs, n - length (takeWhile P xs)))"
  by (induction xs arbitrary: n) (auto simp: nth_Cons')

lemma char_width_nth:
  "char_width xs n =
     (if n < length (width_text xs) then Char_is (width_text xs ! n)
      else Char_next (drop (length (width_text xs)) xs, n - length (width_text xs)))"
  by (cases xs) (auto simp: char_width_def width_text_def char_run_nth dropWhile_eq_drop
      simp del: char_run.simps)

lemma char_precision_nth:
  "char_precision xs n =
     (if n < length (precision_text xs) then Char_is (precision_text xs ! n)
      else Char_next (drop (length (precision_text xs)) xs, n - length (precision_text xs)))"
proof (cases xs)
  case Nil
  then show ?thesis by (simp add: char_precision_def precision_text_def)
next
  case (Cons c cs)
  show ?thesis
  proof (cases "c = CHR ''.''")
    case False
    with Cons show ?thesis by (simp add: char_precision_def precision_text_def)
  next
    case True
    show ?thesis
    proof (cases cs)
      case Nil
      with Cons True show ?thesis by (auto simp: char_precision_def precision_text_def)
    next
      case (Cons d ds)
      with \<open>xs = c # cs\<close> True show ?thesis
        by (auto simp: char_precision_def precision_text_def char_run_nth dropWhile_eq_drop
            nth_Cons' simp del: char_run.simps)
    qed
  qed
qed

lemma size_width_eq:
  "size_width xs n = (drop (length (width_text xs)) xs, n + length (width_text xs))"
  by (cases xs) (auto simp: size_width_def width_text_def count_run_eq dropWhile_eq_drop
      simp del: count_run.simps)

lemma size_precision_eq:
  "size_precision xs n = (drop (length (precision_text xs)) xs, n + length (precision_text xs))"
  by (cases xs) (auto simp: size_precision_def precision_text_def count_run_eq dropWhile_eq_drop
      simp del: count_run.simps split: list.splits)

lemma size_spec:
  "(case count_run IsFlag cs a of (r1, n1) \<Rightarrow>
    (case size_width r1 n1 of (r2, n2) \<Rightarrow>
    (case size_precision r2 n2 of (r3, n3) \<Rightarrow>
    (case count_run IsLength r3 n3 of (r4, n4) \<Rightarrow> K r4 n4)))) =
   K (drop (length (specifier_prefix cs)) cs) (a + length (specifier_prefix cs))"
proof -
  define f where "f = flags_text cs"
  define w where "w = width_text (drop (length f) cs)"
  define p where "p = precision_text (drop (length (f @ w)) cs)"
  define l where "l = length_text (drop (length (f @ w @ p)) cs)"
  have q: "specifier_prefix cs = f @ w @ p @ l"
    by (simp add: specifier_prefix_def Let_def f_def w_def p_def l_def)
  have 1: "count_run IsFlag cs a = (drop (length f) cs, a + length f)"
    by (simp add: count_run_eq f_def flags_text_def dropWhile_eq_drop)
  have 2: "size_width (drop (length f) cs) n = (drop (length (f @ w)) cs, n + length w)" for n
    by (simp add: size_width_eq w_def add_ac)
  have 3: "size_precision (drop (length (f @ w)) cs) n =
      (drop (length (f @ w @ p)) cs, n + length p)" for n
    by (simp add: size_precision_eq p_def add_ac)
  have 4: "count_run IsLength (drop (length (f @ w @ p)) cs) n =
      (drop (length (f @ w @ p @ l)) cs, n + length l)" for n
    by (simp add: count_run_eq l_def length_text_def dropWhile_eq_drop add_ac
        add.left_commute)
  have 5: "a + length f + length w + length p + length l = a + length (f @ w @ p @ l)"
    by simp
  show ?thesis
    by (simp only: 1 2 3 4 5 q prod.case)
qed

lemma char_spec:
  "(case char_run IsFlag cs j of
      Char_is ch \<Rightarrow> Inr ch
    | Char_next (r1, n1) \<Rightarrow>
   (case char_width r1 n1 of
      Char_is ch \<Rightarrow> Inr ch
    | Char_next (r2, n2) \<Rightarrow>
   (case char_precision r2 n2 of
      Char_is ch \<Rightarrow> Inr ch
    | Char_next (r3, n3) \<Rightarrow>
   (case char_run IsLength r3 n3 of
      Char_is ch \<Rightarrow> Inr ch
    | Char_next (r4, n4) \<Rightarrow> K r4 n4)))) =
   (if j < length (specifier_prefix cs) then Inr (specifier_prefix cs ! j)
    else K (drop (length (specifier_prefix cs)) cs) (j - length (specifier_prefix cs)))"
proof -
  define f where "f = flags_text cs"
  define w where "w = width_text (drop (length f) cs)"
  define p where "p = precision_text (drop (length (f @ w)) cs)"
  define l where "l = length_text (drop (length (f @ w @ p)) cs)"
  have q: "specifier_prefix cs = f @ w @ p @ l"
    by (simp add: specifier_prefix_def Let_def f_def w_def p_def l_def)
  have 1: "char_run IsFlag cs n =
      (if n < length f then Char_is (f ! n) else Char_next (drop (length f) cs, n - length f))"
    for n
    by (simp add: char_run_nth f_def flags_text_def dropWhile_eq_drop del: char_run.simps)
  have 2: "char_width (drop (length f) cs) n =
      (if n < length w then Char_is (w ! n)
       else Char_next (drop (length f + length w) cs, n - length w))" for n
    by (simp add: char_width_nth w_def add_ac)
  have 3: "char_precision (drop (length f + length w) cs) n =
      (if n < length p then Char_is (p ! n)
       else Char_next (drop (length f + (length w + length p)) cs, n - length p))" for n
    by (simp add: char_precision_nth p_def add_ac)
  have 4: "char_run IsLength (drop (length f + (length w + length p)) cs) n =
      (if n < length l then Char_is (l ! n)
       else Char_next (drop (length f + (length w + (length p + length l))) cs, n - length l))" for n
    by (simp add: char_run_nth l_def length_text_def dropWhile_eq_drop add_ac
        add.left_commute del: char_run.simps)
  show ?thesis
    by (auto simp: q 1 2 3 4 nth_append add.assoc simp del: char_run.simps)
qed

lemma check_conversion_Cons: "check_conversion xs = Inr (conv, rest) \<Longrightarrow> xs = conv # rest"
  by (auto simp: check_conversion_def split: list.splits if_splits)

lemma size_unfold:
  assumes "d \<noteq> CHR ''%''"
  shows "SizeConversionStorageNeeds_from (CHR ''%'' # d # ds) a c =
    (case check_conversion (drop (length (specifier_prefix (d # ds))) (d # ds)) of
       Inl e \<Rightarrow> Inl e
     | Inr (conv, rest) \<Rightarrow>
         SizeConversionStorageNeeds_from rest (a + 1 + length (specifier_prefix (d # ds)) + 1)
           (c + 1))"
  using assms by (simp add: size_spec del: count_run.simps split: sum.splits prod.splits)

lemma char_unfold:
  assumes "d \<noteq> CHR ''%''"
  shows "GetConversionSpecifierChar_from (CHR ''%'' # d # ds) i =
    (if i = 0 then Inr CHR ''%''
     else if i - 1 < length (specifier_prefix (d # ds))
     then Inr (specifier_prefix (d # ds) ! (i - 1))
     else case check_conversion (drop (length (specifier_prefix (d # ds))) (d # ds)) of
       Inl e \<Rightarrow> Inl e
     | Inr (conv, rest) \<Rightarrow>
         if i - 1 - length (specifier_prefix (d # ds)) = 0 then Inr conv
         else if i - 1 - length (specifier_prefix (d # ds)) - 1 = 0 then Inr NUL
         else GetConversionSpecifierChar_from rest
                (i - 1 - length (specifier_prefix (d # ds)) - 1 - 1))"
  using assms by (simp add: char_spec del: char_run.simps split: sum.splits prod.splits)

lemma storage_text_simps:
  "storage_text [] = []"
  "c \<noteq> CHR ''%'' \<Longrightarrow> storage_text (c # cs) = storage_text cs"
  "storage_text (CHR ''%'' # CHR ''%'' # ds) = storage_text ds"
  "d \<noteq> CHR ''%'' \<Longrightarrow> drop (length (specifier_prefix (d # ds))) (d # ds) = conv # rest \<Longrightarrow>
   storage_text (CHR ''%'' # d # ds) =
     CHR ''%'' # specifier_prefix (d # ds) @ [conv, NUL] @ storage_text rest"
  by (simp_all add: storage_text_def)

lemma storage_refines:
  "SizeConversionStorageNeeds_from xs a c = Inr n \<Longrightarrow>
   n = a + c + length (storage_text xs) \<and>
   (\<forall>i < length (storage_text xs).
      GetConversionSpecifierChar_from xs i = Inr (storage_text xs ! i))"
proof (induction xs arbitrary: a c n rule: length_induct)
  case (1 xs)
  show ?case
  proof (cases xs)
    case Nil
    with "1.prems" show ?thesis by (simp add: storage_text_simps)
  next
    case (Cons x cs)
    show ?thesis
    proof (cases "x = CHR ''%''")
      case False
      with Cons "1.prems" have "SizeConversionStorageNeeds_from cs a c = Inr n" by simp
      with "1.IH" Cons have "n = a + c + length (storage_text cs) \<and>
        (\<forall>i < length (storage_text cs).
           GetConversionSpecifierChar_from cs i = Inr (storage_text cs ! i))"
        by simp
      with False Cons show ?thesis by (simp add: storage_text_simps)
    next
      case True
      show ?thesis
      proof (cases cs)
        case Nil
        with True Cons "1.prems" show ?thesis by simp
      next
        case (Cons d ds)
        note xs = \<open>xs = x # cs\<close> True Cons
        show ?thesis
        proof (cases "d = CHR ''%''")
          case True
          with xs "1.prems" have "SizeConversionStorageNeeds_from ds a c = Inr n" by simp
          with "1.IH" xs have "n = a + c + length (storage_text ds) \<and>
            (\<forall>i < length (storage_text ds).
               GetConversionSpecifierChar_from ds i = Inr (storage_text ds ! i))"
            by simp
          with True xs show ?thesis by (simp add: storage_text_simps)
        next
          case False
          define q where "q = specifier_prefix (d # ds)"
          from "1.prems" xs False obtain conv rest where
            cc: "check_conversion (drop (length q) (d # ds)) = Inr (conv, rest)"
            and sz: "SizeConversionStorageNeeds_from rest (a + 1 + length q + 1) (c + 1) = Inr n"
            unfolding q_def
            by (auto simp only: size_unfold [OF False] split: sum.splits prod.splits)
          from check_conversion_Cons [OF cc] have r: "drop (length q) (d # ds) = conv # rest" .
          then have "length (drop (length q) (d # ds)) = Suc (length rest)" by simp
          then have "length rest < length xs" using xs by simp
          with "1.IH" sz have ih: "n = a + 1 + length q + 1 + (c + 1) + length (storage_text rest)"
            "\<And>i. i < length (storage_text rest) \<Longrightarrow>
               GetConversionSpecifierChar_from rest i = Inr (storage_text rest ! i)"
            by blast+
          have st: "storage_text xs = CHR ''%'' # q @ [conv, NUL] @ storage_text rest"
            using xs storage_text_simps(4) [OF False r [unfolded q_def]] by (simp add: q_def)
          have "n = a + c + length (storage_text xs)"
            using ih(1) by (simp add: st)
          moreover have "GetConversionSpecifierChar_from xs i = Inr (storage_text xs ! i)"
            if "i < length (storage_text xs)" for i
          proof -
            have u: "GetConversionSpecifierChar_from xs j =
              (if j = 0 then Inr CHR ''%''
               else if j - 1 < length q then Inr (q ! (j - 1))
               else if j - 1 - length q = 0 then Inr conv
               else if j - 1 - length q - 1 = 0 then Inr NUL
               else GetConversionSpecifierChar_from rest (j - 1 - length q - 1 - 1))" for j
              unfolding xs char_unfold [OF False] q_def [symmetric] cc by simp
            consider "i = 0" | "0 < i" "i - 1 < length q" | "i = length q + 1"
              | "i = length q + 2" | "length q + 3 \<le> i"
              by linarith
            then show ?thesis
            proof cases
              case 1
              then show ?thesis by (simp add: u st)
            next
              case 2
              then show ?thesis by (simp add: u st nth_Cons' nth_append)
            next
              case 3
              then show ?thesis by (simp add: u st nth_Cons' nth_append)
            next
              case 4
              then show ?thesis by (simp add: u st nth_Cons' nth_append)
            next
              case 5
              then obtain k where k: "i = length q + 3 + k"
                using le_Suc_ex by blast
              with that have "k < length (storage_text rest)"
                by (simp add: st)
              from ih(2) [OF this] have
                "GetConversionSpecifierChar_from rest k = Inr (storage_text rest ! k)" .
              moreover have "GetConversionSpecifierChar_from xs i =
                  GetConversionSpecifierChar_from rest k"
                unfolding k by (simp add: u)
              moreover have "storage_text xs ! i = storage_text rest ! k"
                unfolding st k by (simp add: nth_Cons' nth_append)
              ultimately show ?thesis by simp
            qed
          qed
          ultimately show ?thesis by blast
        qed
      qed
    qed
  qed
qed

lemma collect_map_Inr: "collect (map Inr ys) = Inr ys"
  by (induction ys) simp_all

lemma MakeConversionStorage_refines:
  assumes "SizeConversionStorageNeeds fmt = Inr n"
  shows "n = length (storage_text fmt)" and "MakeConversionStorage n fmt = Inr (storage_text fmt)"
proof -
  from storage_refines [OF assms [unfolded SizeConversionStorageNeeds_def]]
  have n: "n = length (storage_text fmt)"
    and c: "\<And>i. i < length (storage_text fmt) \<Longrightarrow>
      GetConversionSpecifierChar_from fmt i = Inr (storage_text fmt ! i)"
    by simp_all
  show "n = length (storage_text fmt)" by (fact n)
  have "map (GetConversionSpecifierChar fmt) [0..<n] =
      map (\<lambda>i. Inr (storage_text fmt ! i)) [0..<length (storage_text fmt)]"
    unfolding n by (rule map_cong) (simp_all add: GetConversionSpecifierChar_def c)
  also have "\<dots> = map Inr (map (nth (storage_text fmt)) [0..<length (storage_text fmt)])"
    by simp
  also have "\<dots> = map Inr (storage_text fmt)"
    by (simp only: map_nth)
  finally show "MakeConversionStorage n fmt = Inr (storage_text fmt)"
    by (simp add: MakeConversionStorage_def collect_map_Inr)
qed

lemma tokens_concat:
  "\<forall>s \<in> set ss. NUL \<notin> set s \<Longrightarrow> tokens (concat (map (\<lambda>s. s @ [NUL]) ss)) = ss"
proof (induction ss)
  case Nil
  then show ?case by (simp add: tokens.simps)
next
  case (Cons s ss)
  then have "\<And>x. x \<in> set s \<Longrightarrow> x \<noteq> NUL" by auto
  then have "takeWhile (\<lambda>c. c \<noteq> NUL) (s @ NUL # concat (map (\<lambda>s. s @ [NUL]) ss)) = s"
    "dropWhile (\<lambda>c. c \<noteq> NUL) (s @ NUL # concat (map (\<lambda>s. s @ [NUL]) ss)) =
       NUL # concat (map (\<lambda>s. s @ [NUL]) ss)"
    by (simp_all add: takeWhile_append2 dropWhile_append2)
  with Cons show ?case
    by (subst tokens.simps) simp
qed

lemma specifier_prefix_no_NUL: "NUL \<notin> set (specifier_prefix xs)"
proof -
  have "NUL \<notin> set (takeWhile IsFlag ys)" "NUL \<notin> set (takeWhile IsDigit ys)"
    "NUL \<notin> set (takeWhile IsLength ys)" for ys
    by (auto dest!: set_takeWhileD simp: eval_chars)
  then have "NUL \<notin> set (flags_text ys)" "NUL \<notin> set (width_text ys)"
    "NUL \<notin> set (precision_text ys)" "NUL \<notin> set (length_text ys)" for ys
    by (auto simp: flags_text_def width_text_def precision_text_def length_text_def
        split: list.splits if_splits)
  then show ?thesis
    by (simp add: specifier_prefix_def Let_def)
qed

lemma specifiers_no_NUL:
  "SizeConversionStorageNeeds_from xs a c = Inr n \<Longrightarrow> \<forall>s \<in> set (specifiers xs). NUL \<notin> set s"
proof (induction xs arbitrary: a c n rule: length_induct)
  case (1 xs)
  show ?case
  proof (cases xs)
    case Nil
    then show ?thesis by simp
  next
    case (Cons x cs)
    show ?thesis
    proof (cases "x = CHR ''%''")
      case False
      with Cons "1.prems" have "SizeConversionStorageNeeds_from cs a c = Inr n" by simp
      moreover have "length cs < length xs" using Cons by simp
      ultimately have "\<forall>s \<in> set (specifiers cs). NUL \<notin> set s"
        using "1.IH" by blast
      with False Cons show ?thesis by simp
    next
      case True
      show ?thesis
      proof (cases cs)
        case Nil
        with True Cons show ?thesis by simp
      next
        case (Cons d ds)
        note xs = \<open>xs = x # cs\<close> True Cons
        show ?thesis
        proof (cases "d = CHR ''%''")
          case True
          with xs "1.prems" have "SizeConversionStorageNeeds_from ds a c = Inr n" by simp
          moreover have "length ds < length xs" using xs by simp
          ultimately have "\<forall>s \<in> set (specifiers ds). NUL \<notin> set s"
            using "1.IH" by blast
          with True xs show ?thesis by simp
        next
          case False
          define q where "q = specifier_prefix (d # ds)"
          from "1.prems" xs False obtain conv rest where
            cc: "check_conversion (drop (length q) (d # ds)) = Inr (conv, rest)"
            and sz: "SizeConversionStorageNeeds_from rest (a + 1 + length q + 1) (c + 1) = Inr n"
            unfolding q_def
            by (auto simp only: size_unfold [OF False] split: sum.splits prod.splits)
          from check_conversion_Cons [OF cc] have r: "drop (length q) (d # ds) = conv # rest" .
          then have "length (drop (length q) (d # ds)) = Suc (length rest)" by simp
          then have "length rest < length xs" using xs by simp
          with "1.IH" sz have ih: "\<forall>s \<in> set (specifiers rest). NUL \<notin> set s" by blast
          from cc r have "conv \<noteq> NUL"
            by (auto simp: check_conversion_def eval_chars split: if_splits)
          moreover have "specifiers xs = (CHR ''%'' # q @ [conv]) # specifiers rest"
            using xs False r by (simp add: q_def)
          ultimately show ?thesis
            using ih specifier_prefix_no_NUL [of "d # ds"] by (simp add: q_def)
        qed
      qed
    qed
  qed
qed

text \<open>
  C5. For every format array that \<open>SizeConversionStorageNeeds\<close> accepts, with result
  \<open>n\<close>, \<open>MakeConversionStorage\<close> of size \<open>n\<close> returns an array of \<open>n\<close> characters:
  the conversion specifiers of the format, each from its \<open>%\<close> to its conversion character
  and each followed by a NUL. Its NUL-separated tokens are the conversion specifiers of the
  format, one for one and in order.
\<close>

theorem conversion_storage_round_trip:
  assumes "SizeConversionStorageNeeds fmt = Inr n"
  shows "\<exists>storage. MakeConversionStorage n fmt = Inr storage \<and> length storage = n \<and>
    storage = concat (map (\<lambda>s. s @ [NUL]) (specifiers fmt)) \<and>
    tokens storage = specifiers fmt \<and>
    (\<forall>k < length (specifiers fmt). tokens storage ! k = specifiers fmt ! k)"
proof -
  from MakeConversionStorage_refines [OF assms]
  have "MakeConversionStorage n fmt = Inr (storage_text fmt)" "length (storage_text fmt) = n"
    by simp_all
  moreover from specifiers_no_NUL [OF assms [unfolded SizeConversionStorageNeeds_def]]
  have "tokens (storage_text fmt) = specifiers fmt"
    unfolding storage_text_def by (rule tokens_concat)
  ultimately show ?thesis
    by (simp add: storage_text_def)
qed

theorem conversion_storage_round_trip_witness:
  "SizeConversionStorageNeeds c5_format = Inr 35 \<and>
   specifiers c5_format = [''%17.31Lf'', ''%17.31lc'', ''%17.31llu'', ''%*.*lu''] \<and>
   (\<exists>storage. MakeConversionStorage 35 c5_format = Inr storage \<and>
      storage = ''%17.31Lf'' @ [NUL] @ ''%17.31lc'' @ [NUL] @ ''%17.31llu'' @ [NUL] @
                ''%*.*lu'' @ [NUL] \<and>
      tokens storage = [''%17.31Lf'', ''%17.31lc'', ''%17.31llu'', ''%*.*lu''])"
proof -
  have a: "SizeConversionStorageNeeds c5_format = Inr 35"
    by (simp add: eval_analysis eval_chars c5_format_def)
  have s: "specifiers c5_format = [''%17.31Lf'', ''%17.31lc'', ''%17.31llu'', ''%*.*lu'']"
    by (simp add: c5_format_def specifier_prefix_def flags_text_def width_text_def
        precision_text_def length_text_def eval_chars)
  from conversion_storage_round_trip [OF a] obtain storage where
    m: "MakeConversionStorage 35 c5_format = Inr storage"
    and c: "storage = concat (map (\<lambda>s. s @ [NUL]) (specifiers c5_format))"
    and t: "tokens storage = specifiers c5_format"
    by blast
  from c have "storage = ''%17.31Lf'' @ [NUL] @ ''%17.31lc'' @ [NUL] @ ''%17.31llu'' @ [NUL] @
                ''%*.*lu'' @ [NUL]"
    by (simp add: s)
  with a s m t show ?thesis by simp
qed

end
